theory Spec2Isabelle
  imports Main "HOL-Library.AList"
begin

section \<open>Messages and their wire format (message.go)\<close>

text \<open>
  Go's \<open>int\<close> fields (\<open>retry\<close>, \<open>version\<close>) are modelled as \<open>int\<close>: the
  package never does arithmetic on them, it only compares them and prints them in decimal,
  so wrap-around cannot occur. Go strings are byte sequences, here \<open>string\<close>.
  The field \<open>id\<close> is called \<open>m_id\<close>; the other fields take the same prefix.
\<close>

record Message =
  m_id :: string
  m_data :: string
  m_event :: string
  m_retry :: int
  m_version :: int

definition NewMessageVer :: "string \<Rightarrow> string \<Rightarrow> string \<Rightarrow> int \<Rightarrow> Message" where
  "NewMessageVer i d e v =
     \<lparr>m_id = i, m_data = d, m_event = e, m_retry = 0, m_version = v\<rparr>"

definition NewMessage :: "string \<Rightarrow> string \<Rightarrow> string \<Rightarrow> Message" where
  "NewMessage i d e =
     \<lparr>m_id = i, m_data = d, m_event = e, m_retry = 0, m_version = 0\<rparr>"


text \<open>\<open>fmt.Sprintf("%d", n)\<close>: the decimal numeral of an integer.\<close>

fun nat_decimal :: "nat \<Rightarrow> string" where
  "nat_decimal n =
     (if n < 10 then [''0123456789'' ! n]
      else nat_decimal (n div 10) @ [''0123456789'' ! (n mod 10)])"

declare nat_decimal.simps [simp del]

definition Sprintf_d :: "int \<Rightarrow> string" where
  "Sprintf_d i = (if i < 0 then CHR ''-'' # nat_decimal (nat (- i)) else nat_decimal (nat i))"

text \<open>\<open>strings.Replace(s, "\n", "\ndata: ", -1)\<close>: every line feed of \<open>s\<close>, from left
  to right, is replaced by a line feed followed by \<open>data: \<close>.\<close>

primrec Replace_newline :: "string \<Rightarrow> string" where
  "Replace_newline [] = []"
| "Replace_newline (c # cs) =
     (if c = CHR 0x0A then ''\<newline>data: '' @ Replace_newline cs
      else c # Replace_newline cs)"

text \<open>\<open>Message.String\<close>: the buffer is written field by field.\<close>

definition Message_String :: "Message \<Rightarrow> string" where
  "Message_String m =
     (if length (m_id m) > 0 then ''id: '' @ m_id m @ ''\<newline>'' else [])
     @ (if m_retry m > 0 then ''retry: '' @ Sprintf_d (m_retry m) @ ''\<newline>'' else [])
     @ (if length (m_event m) > 0 then ''event: '' @ m_event m @ ''\<newline>'' else [])
     @ (if length (m_data m) > 0
        then ''data: '' @ Replace_newline (m_data m) @ ''\<newline>'' else [])
     @ ''\<newline>''"

subsection \<open>The wire format as the specification words it\<close>

text \<open>The lines of a payload: the pieces between its line feeds.\<close>

fun payload_lines :: "string \<Rightarrow> string list" where
  "payload_lines [] = [[]]"
| "payload_lines (c # cs) =
     (if c = CHR 0x0A then [] # payload_lines cs
      else (case payload_lines cs of
              [] \<Rightarrow> [[c]]
            | l # ls \<Rightarrow> (c # l) # ls))"

definition data_line :: "string \<Rightarrow> string" where
  "data_line l = ''data: '' @ l @ ''\<newline>''"

definition wire_format :: "Message \<Rightarrow> string" where
  "wire_format m =
     (if m_id m \<noteq> [] then ''id: '' @ m_id m @ ''\<newline>'' else [])
     @ (if 0 < m_retry m then ''retry: '' @ Sprintf_d (m_retry m) @ ''\<newline>'' else [])
     @ (if m_event m \<noteq> [] then ''event: '' @ m_event m @ ''\<newline>'' else [])
     @ (if m_data m \<noteq> [] then concat (map data_line (payload_lines (m_data m))) else [])
     @ ''\<newline>''"

section \<open>Go channels and panics\<close>

text \<open>
  A run-time panic of the Go program is a value. Nothing in the package recovers from a
  panic, so a panic ends the process and carries no state.
\<close>

datatype panic = Nil_dereference | Send_on_closed_channel | Close_of_closed_channel

text \<open>
  A subscriber's \<open>send\<close> channel is unbuffered (\<open>make(chan *Message)\<close>) and is drained by
  the \<open>range\<close> loop of \<open>ServeHTTP\<close>. It is modelled by whether it is closed and by the
  messages handed over so far, oldest first: a send is taken to complete (the draining
  goroutine receives). Sending on a closed channel and closing a closed channel panic,
  as in Go. The queue holds message values; the messages of the source are shared
  pointers.
\<close>

record 'a chan =
  closed :: bool
  sent :: "'a list"

definition make_chan :: "'a chan" where
  "make_chan = \<lparr>closed = False, sent = []\<rparr>"

definition chan_send :: "'a \<Rightarrow> 'a chan \<Rightarrow> panic + 'a chan" where
  "chan_send x q = (if closed q then Inl Send_on_closed_channel
                    else Inr (q\<lparr>sent := sent q @ [x]\<rparr>))"

definition chan_close :: "'a chan \<Rightarrow> panic + 'a chan" where
  "chan_close q = (if closed q then Inl Close_of_closed_channel
                   else Inr (q\<lparr>closed := True\<rparr>))"

section \<open>Clients (subscribers)\<close>

record Client =
  cl_lastEventID :: string
  cl_channel :: string
  cl_name :: string
  cl_send :: "Message chan"
  cl_version :: int

definition newClient :: "string \<Rightarrow> string \<Rightarrow> string \<Rightarrow> int \<Rightarrow> Client" where
  "newClient lastEventID channel name version =
     \<lparr>cl_lastEventID = lastEventID, cl_channel = channel, cl_name = name,
      cl_send = make_chan, cl_version = version\<rparr>"

text \<open>\<open>Client.SendMessage\<close>: the version gate, then the assignment, then the send.\<close>

definition Client_SendMessage :: "Message \<Rightarrow> Client \<Rightarrow> panic + Client" where
  "Client_SendMessage message c =
     (if m_version message \<le> cl_version c
      then (case chan_send message (cl_send c) of
              Inl e \<Rightarrow> Inl e
            | Inr q \<Rightarrow> Inr (c\<lparr>cl_lastEventID := m_id message, cl_send := q\<rparr>))
      else Inr c)"

text \<open>
  Clients are shared through pointers (\<open>*Client\<close>): the transport, the maps of the
  channels and the control loop hold the same object. The store of all clients ever
  created is a list, a pointer is \<open>None\<close> (nil) or the index of a client in the store.
  Go has no dangling pointers; an index outside the store is treated like nil.
\<close>

type_synonym Client_ptr = "nat option"

definition ptr_SendMessage :: "Message \<Rightarrow> Client_ptr \<Rightarrow> Client list \<Rightarrow> panic + Client list" where
  "ptr_SendMessage message p h =
     (case p of
        None \<Rightarrow> Inl Nil_dereference
      | Some a \<Rightarrow>
          if a < length h
          then (case Client_SendMessage message (h ! a) of
                  Inl e \<Rightarrow> Inl e
                | Inr c' \<Rightarrow> Inr (h[a := c']))
          else Inl Nil_dereference)"

section \<open>Channels (topics)\<close>

text \<open>
  The Go map \<open>clients map[string]*Client\<close> is an association list with distinct keys;
  the order of the list is the order in which a \<open>range\<close> over the map visits it. Go leaves
  that order open, and so do the theorems below, which hold for every list.
\<close>

record Channel =
  ch_lastEventID :: string
  ch_name :: string
  ch_clients :: "(string \<times> Client_ptr) list"

definition newChannel :: "string \<Rightarrow> Channel" where
  "newChannel name = \<lparr>ch_lastEventID = [], ch_name = name, ch_clients = []\<rparr>"

text \<open>The loop \<open>for _, cl := range c.clients\<close> of \<open>Channel.SendMessage\<close>.\<close>

fun Channel_SendMessage_range ::
  "Message \<Rightarrow> (string \<times> Client_ptr) list \<Rightarrow> Client list \<Rightarrow> panic + Client list" where
  "Channel_SendMessage_range message [] h = Inr h"
| "Channel_SendMessage_range message ((k, cl) # rest) h =
     (if cl \<noteq> None
      then (case ptr_SendMessage message cl h of
              Inl e \<Rightarrow> Inl e
            | Inr h' \<Rightarrow> Channel_SendMessage_range message rest h')
      else Channel_SendMessage_range message rest h)"

definition Channel_SendMessage ::
  "string \<Rightarrow> Message \<Rightarrow> Channel \<Rightarrow> Client list \<Rightarrow> panic + (Channel \<times> Client list)" where
  "Channel_SendMessage name message c h =
     (if name \<noteq> []
      then (case map_of (ch_clients c) name of
              Some cl \<Rightarrow>
                (case ptr_SendMessage message cl h of
                   Inl e \<Rightarrow> Inl e
                 | Inr h' \<Rightarrow> Inr (c, h'))
            | None \<Rightarrow> Inr (c, h))
      else (case Channel_SendMessage_range message (ch_clients c) h of
              Inl e \<Rightarrow> Inl e
            | Inr h' \<Rightarrow> Inr (c\<lparr>ch_lastEventID := m_id message\<rparr>, h')))"

definition ClientCount :: "Channel \<Rightarrow> nat" where
  "ClientCount c = length (ch_clients c)"

definition LastEventID :: "Channel \<Rightarrow> string" where
  "LastEventID c = ch_lastEventID c"

definition Channel_addClient :: "nat \<Rightarrow> Client \<Rightarrow> Channel \<Rightarrow> Channel" where
  "Channel_addClient a client c =
     c\<lparr>ch_clients := AList.update (cl_name client) (Some a) (ch_clients c)\<rparr>"

text \<open>
  \<open>Channel.removeClient\<close>: the entry under the client's name is set to nil, the client's
  queue is closed, the entry is deleted. The entry is found by name, whichever client it
  holds.
\<close>

definition Channel_removeClient ::
  "Client_ptr \<Rightarrow> Channel \<Rightarrow> Client list \<Rightarrow> panic + (Channel \<times> Client list)" where
  "Channel_removeClient p c h =
     (case p of
        None \<Rightarrow> Inl Nil_dereference
      | Some a \<Rightarrow>
          if a < length h
          then (case chan_close (cl_send (h ! a)) of
                  Inl e \<Rightarrow> Inl e
                | Inr q \<Rightarrow>
                    Inr (c\<lparr>ch_clients :=
                             AList.delete (cl_name (h ! a))
                               (AList.update (cl_name (h ! a)) None (ch_clients c))\<rparr>,
                         h[a := (h ! a)\<lparr>cl_send := q\<rparr>]))
          else Inl Nil_dereference)"

text \<open>
  \<open>Channel.Close\<close> ranges over the map while \<open>removeClient\<close> deletes from it. In Go an
  entry removed before the iteration reaches it is not produced, and an entry is produced
  with the value it has when it is reached.
\<close>

fun Channel_Close_range ::
  "(string \<times> Client_ptr) list \<Rightarrow> Channel \<Rightarrow> Client list \<Rightarrow> panic + (Channel \<times> Client list)" where
  "Channel_Close_range [] c h = Inr (c, h)"
| "Channel_Close_range ((k, old) # rest) c h =
     (case map_of (ch_clients c) k of
        None \<Rightarrow> Channel_Close_range rest c h
      | Some client \<Rightarrow>
          (case Channel_removeClient client c h of
             Inl e \<Rightarrow> Inl e
           | Inr (c', h') \<Rightarrow> Channel_Close_range rest c' h'))"

definition Channel_Close :: "Channel \<Rightarrow> Client list \<Rightarrow> panic + (Channel \<times> Client list)" where
  "Channel_Close c h = Channel_Close_range (ch_clients c) c h"

section \<open>The server (hub) and its control loop (sse.go)\<close>

text \<open>
  Of \<open>Options\<close> the model keeps \<open>RetryInterval\<close>, which \<open>ServeHTTP\<close> reads, and
  \<open>Heartbeat\<close>, which the timer case of \<open>dispatch\<close> reads. The calls of \<open>Logger.Print\<close> and \<open>Logger.Printf\<close> are recorded, in order, in \<open>logged\<close>;
  \<open>%s\<close> of a string is the string.
\<close>

record Options =
  RetryInterval :: int
  Heartbeat :: bool

text \<open>
  The map \<open>channels map[string]*Channel\<close> is an association list like \<open>clients\<close>; a
  channel object is held by value under its key, and a method that mutates the object
  through the pointer writes it back under that key. The four control channels of the
  server carry the requests themselves; the state keeps whether each is closed.
  \<open>clients_store\<close> is the store of client objects.
\<close>

record Server =
  options :: Options
  channels :: "(string \<times> Channel) list"
  addClient_closed :: bool
  removeClient_closed :: bool
  shutdown_closed :: bool
  closeChannel_closed :: bool
  clients_store :: "Client list"
  logged :: "string list"

definition Print :: "string \<Rightarrow> Server \<Rightarrow> Server" where
  "Print line s = s\<lparr>logged := logged s @ [line]\<rparr>"

definition quoted :: "string \<Rightarrow> string" where
  "quoted x = CHR 0x27 # x @ [CHR 0x27]"

text \<open>\<open>NewServer\<close> starts the control loop, whose first statement logs.\<close>

definition NewServer :: "Options \<Rightarrow> Server" where
  "NewServer opts =
     \<lparr>options = opts, channels = [], addClient_closed = False, removeClient_closed = False,
      shutdown_closed = False, closeChannel_closed = False, clients_store = [],
      logged = [''server started.'']\<rparr>"

text \<open>The loop \<open>for _, ch := range s.channels\<close> of \<open>SendMessageToClient\<close>.\<close>

fun SendMessageToClient_range ::
  "string \<Rightarrow> Message \<Rightarrow> (string \<times> Channel) list \<Rightarrow> Client list
     \<Rightarrow> panic + ((string \<times> Channel) list \<times> Client list)" where
  "SendMessageToClient_range client message [] h = Inr ([], h)"
| "SendMessageToClient_range client message ((k, ch) # rest) h =
     (case Channel_SendMessage client message ch h of
        Inl e \<Rightarrow> Inl e
      | Inr (ch', h') \<Rightarrow>
          (case SendMessageToClient_range client message rest h' of
             Inl e \<Rightarrow> Inl e
           | Inr (rest', h'') \<Rightarrow> Inr ((k, ch') # rest', h'')))"

definition SendMessageToClient :: "string \<Rightarrow> string \<Rightarrow> Message \<Rightarrow> Server \<Rightarrow> panic + Server" where
  "SendMessageToClient channel client message s =
     (if length channel = 0
      then (let s1 = (if m_event message \<noteq> ''heartbeat''
                      then Print ''broadcasting message to all channels.'' s else s)
            in case SendMessageToClient_range client message (channels s1) (clients_store s1) of
                 Inl e \<Rightarrow> Inl e
               | Inr (chs, h) \<Rightarrow> Inr (s1\<lparr>channels := chs, clients_store := h\<rparr>))
      else (case map_of (channels s) channel of
              Some ch \<Rightarrow>
                (let s1 = Print (''message sent to channel '' @ quoted channel @ ''.'') s
                 in case Channel_SendMessage client message ch (clients_store s1) of
                      Inl e \<Rightarrow> Inl e
                    | Inr (ch', h) \<Rightarrow>
                        Inr (s1\<lparr>channels := AList.update channel ch' (channels s1),
                                 clients_store := h\<rparr>))
            | None \<Rightarrow>
                Inr (Print (''message not sent because channel '' @ quoted channel
                            @ '' has no clients.'') s)))"

definition Server_SendMessage :: "string \<Rightarrow> Message \<Rightarrow> Server \<Rightarrow> panic + Server" where
  "Server_SendMessage channel message s = SendMessageToClient channel [] message s"

definition HasChannel :: "string \<Rightarrow> Server \<Rightarrow> bool" where
  "HasChannel name s = (map_of (channels s) name \<noteq> None)"

definition Server_ClientCount :: "Server \<Rightarrow> nat" where
  "Server_ClientCount s = sum_list (map (\<lambda>(k, ch). ClientCount ch) (channels s))"

definition Channels :: "Server \<Rightarrow> string list" where
  "Channels s = map fst (channels s)"

subsection \<open>One iteration of \<open>dispatch\<close>\<close>

text \<open>
  An iteration of the loop of \<open>dispatch\<close> takes one event from \<open>select\<close> and either
  goes on (\<open>Running\<close>), returns (\<open>Stopped\<close>), panics, or never finishes (\<open>Blocked\<close>, with
  the state in which it hangs).
\<close>

datatype outcome = Running Server | Stopped Server | Blocked Server | Panicked panic

definition dispatch_addClient :: "nat \<Rightarrow> Server \<Rightarrow> outcome" where
  "dispatch_addClient a s =
     (if a < length (clients_store s)
      then (let c = clients_store s ! a;
                s1 = (case map_of (channels s) (cl_channel c) of
                        Some ch \<Rightarrow> s
                      | None \<Rightarrow>
                          Print (''channel '' @ quoted (cl_channel c) @ '' created.'')
                            (s\<lparr>channels := AList.update (cl_channel c)
                                              (newChannel (cl_channel c)) (channels s)\<rparr>));
                ch = (case map_of (channels s) (cl_channel c) of
                        Some ch \<Rightarrow> ch
                      | None \<Rightarrow> newChannel (cl_channel c))
            in Running
                 (Print (''new client connected to channel '' @ quoted (ch_name ch) @ ''.'')
                    (s1\<lparr>channels := AList.update (cl_channel c) (Channel_addClient a c ch)
                                       (channels s1)\<rparr>)))
      else Panicked Nil_dereference)"

definition dispatch_removeClient :: "nat \<Rightarrow> Server \<Rightarrow> outcome" where
  "dispatch_removeClient a s =
     (if a < length (clients_store s)
      then (let c = clients_store s ! a
            in case map_of (channels s) (cl_channel c) of
                 None \<Rightarrow> Running s
               | Some ch \<Rightarrow>
                   (case Channel_removeClient (Some a) ch (clients_store s) of
                      Inl e \<Rightarrow> Panicked e
                    | Inr (ch1, h1) \<Rightarrow>
                        (let s1 = Print (''client disconnected from channel ''
                                         @ quoted (ch_name ch1) @ ''.'')
                                    (s\<lparr>channels := AList.update (cl_channel c) ch1 (channels s),
                                       clients_store := h1\<rparr>);
                             s2 = Print (''checking if channel '' @ quoted (ch_name ch1)
                                         @ '' has clients.'') s1
                         in if ClientCount ch1 = 0
                            then (case Channel_Close ch1 (clients_store s2) of
                                    Inl e \<Rightarrow> Panicked e
                                  | Inr (ch2, h2) \<Rightarrow>
                                      Running
                                        (Print (''channel '' @ quoted (ch_name ch1)
                                                @ '' has no clients.'')
                                           (s2\<lparr>channels := AList.delete (ch_name ch1) (channels s2),
                                               clients_store := h2\<rparr>)))
                            else Running s2)))
      else Panicked Nil_dereference)"

definition dispatch_closeChannel :: "string \<Rightarrow> Server \<Rightarrow> outcome" where
  "dispatch_closeChannel channel s =
     (case map_of (channels s) channel of
        Some ch \<Rightarrow>
          (case Channel_Close ch (clients_store s) of
             Inl e \<Rightarrow> Panicked e
           | Inr (ch', h) \<Rightarrow>
               Running (Print (''channel '' @ quoted (ch_name ch) @ '' closed.'')
                          (s\<lparr>channels := AList.delete channel (channels s),
                             clients_store := h\<rparr>)))
      | None \<Rightarrow>
          Running (Print (''requested to close channel '' @ quoted channel
                          @ '', but it doesn't exists.'') s))"

text \<open>
  \<open>Server.close\<close> sends every channel name on \<open>s.closeChannel\<close>, which is unbuffered
  (\<open>make(chan string)\<close>) and received from in one place only, the \<open>select\<close> of
  \<open>dispatch\<close>. Called from the shutdown case it runs in the goroutine of \<open>dispatch\<close>
  itself, so its first send has no receiver and never completes: with no channel in the
  table the loop body is not entered and \<open>close\<close> returns, otherwise the iteration hangs
  in the send.
\<close>

definition close_returns_in_dispatch :: "Server \<Rightarrow> bool" where
  "close_returns_in_dispatch s = (channels s = [])"

definition close_control :: "bool \<Rightarrow> panic + bool" where
  "close_control is_closed = (if is_closed then Inl Close_of_closed_channel else Inr True)"

definition dispatch_shutdown :: "Server \<Rightarrow> outcome" where
  "dispatch_shutdown s =
     (if close_returns_in_dispatch s
      then (case close_control (addClient_closed s) of
              Inl e \<Rightarrow> Panicked e
            | Inr c1 \<Rightarrow>
          (case close_control (removeClient_closed s) of
              Inl e \<Rightarrow> Panicked e
            | Inr c2 \<Rightarrow>
          (case close_control (closeChannel_closed s) of
              Inl e \<Rightarrow> Panicked e
            | Inr c3 \<Rightarrow>
          (case close_control (shutdown_closed s) of
              Inl e \<Rightarrow> Panicked e
            | Inr c4 \<Rightarrow>
                Stopped (Print ''server stopped.''
                           (s\<lparr>addClient_closed := c1, removeClient_closed := c2,
                              closeChannel_closed := c3, shutdown_closed := c4\<rparr>))))))
      else Blocked s)"

text \<open>
  The \<open>select\<close> of \<open>dispatch\<close> has a fifth case, the timer
  \<open>time.After(15 * time.Second)\<close>. Its body is
  \<open>s.SendMessage("", "", &Message{event: "heartbeat"})\<close> under the test of
  \<open>s.options.Heartbeat\<close>: three arguments to the method \<open>SendMessage(channel, message)\<close>
  of two parameters. That statement is not a call of any method of this package as it is
  declared, so it has no behaviour to embed, and the timer case is not among the events
  below.
\<close>

datatype event = AddClient nat | RemoveClient nat | CloseChannel string | Shutdown

fun dispatch :: "event \<Rightarrow> Server \<Rightarrow> outcome" where
  "dispatch (AddClient a) s = dispatch_addClient a s"
| "dispatch (RemoveClient a) s = dispatch_removeClient a s"
| "dispatch (CloseChannel channel) s = dispatch_closeChannel channel s"
| "dispatch Shutdown s = dispatch_shutdown s"

subsection \<open>The delivery path of \<open>ServeHTTP\<close>\<close>

text \<open>
  \<open>ServeHTTP\<close> creates the client and hands its pointer to the control loop; the new
  client is the next object of the store.
\<close>

definition ServeHTTP_connect :: "string \<Rightarrow> string \<Rightarrow> string \<Rightarrow> int \<Rightarrow> Server \<Rightarrow> outcome" where
  "ServeHTTP_connect lastEventID channelName clientName version s =
     dispatch (AddClient (length (clients_store s)))
       (s\<lparr>clients_store := clients_store s
             @ [newClient lastEventID channelName clientName version]\<rparr>)"

text \<open>
  \<open>fmt.Fprintf(w, format)\<close> of the Go library, called with a format and no operand, as
  \<open>ServeHTTP\<close> calls it. The model follows \<open>doPrintf\<close> of the library: text up to a
  percent sign is copied; after a percent sign come flags, an argument index \<open>[n]\<close>, a
  width, a precision and the verb. With no operand an index is always out of range
  (\<open>BADINDEX\<close>), a \<open>*\<close> finds no operand (\<open>BADWIDTH\<close>, \<open>BADPREC\<close>), a verb other
  than \<open>%\<close> finds none either (\<open>MISSING\<close>), and a format that ends inside a directive has
  no verb (\<open>NOVERB\<close>). A number of more than seven digits may overflow the parser, which
  then skips to the end of the format. The verb is one UTF-8 encoded rune, or the
  replacement rune for a byte that starts none. A format is the text still to be read.
\<close>

definition byte :: "char \<Rightarrow> nat" where
  "byte c = of_char c"

definition is_flag :: "char \<Rightarrow> bool" where
  "is_flag c = (c = CHR ''#'' \<or> c = CHR ''0'' \<or> c = CHR ''+'' \<or> c = CHR ''-'' \<or> c = CHR '' '')"

definition is_digit :: "char \<Rightarrow> bool" where
  "is_digit c = (48 \<le> byte c \<and> byte c \<le> 57)"

fun parsenum_loop :: "nat \<Rightarrow> bool \<Rightarrow> string \<Rightarrow> nat \<times> bool \<times> string" where
  "parsenum_loop num isnum [] = (num, isnum, [])"
| "parsenum_loop num isnum (c # cs) =
     (if is_digit c
      then (if 1000000 < num then (0, False, [])
            else parsenum_loop (num * 10 + (byte c - 48)) True cs)
      else (num, isnum, c # cs))"

definition parsenum :: "string \<Rightarrow> nat \<times> bool \<times> string" where
  "parsenum s = parsenum_loop 0 False s"

definition parseArgNumber :: "string \<Rightarrow> nat \<times> bool" where
  "parseArgNumber format =
     (if length format < 3 then (1, False)
      else (let inside = takeWhile (\<lambda>c. c \<noteq> CHR '']'') (tl format)
            in if length inside = length (tl format) then (1, False)
               else (case parsenum inside of
                       (width, ok, rest) \<Rightarrow>
                         if \<not> ok \<or> rest \<noteq> [] then (length inside + 2, False)
                         else (length inside + 2, True))))"

definition argNumber :: "bool \<Rightarrow> string \<Rightarrow> bool \<times> string \<times> bool" where
  "argNumber goodArgNum format =
     (case format of
        [] \<Rightarrow> (goodArgNum, format, False)
      | c # cs \<Rightarrow>
          if c \<noteq> CHR ''['' then (goodArgNum, format, False)
          else (case parseArgNumber format of
                  (wid, ok) \<Rightarrow> (False, drop wid format, ok)))"

definition format_width :: "bool \<Rightarrow> bool \<Rightarrow> string \<Rightarrow> string \<times> bool \<times> bool \<times> string" where
  "format_width goodArgNum afterIndex format =
     (case format of
        [] \<Rightarrow> ([], goodArgNum, afterIndex, [])
      | c # cs \<Rightarrow>
          if c = CHR ''*'' then (''%!(BADWIDTH)'', goodArgNum, False, cs)
          else (case parsenum format of
                  (wid, widPresent, rest) \<Rightarrow>
                    ([], goodArgNum \<and> \<not> (afterIndex \<and> widPresent), afterIndex, rest)))"

definition format_precision :: "bool \<Rightarrow> bool \<Rightarrow> string \<Rightarrow> string \<times> bool \<times> bool \<times> string" where
  "format_precision goodArgNum afterIndex format =
     (case format of
        [] \<Rightarrow> ([], goodArgNum, afterIndex, [])
      | c # cs \<Rightarrow>
          if c = CHR ''.''
          then (case argNumber (goodArgNum \<and> \<not> afterIndex) cs of
                  (good, format1, found) \<Rightarrow>
                    (case format1 of
                       [] \<Rightarrow> ([], good, found, [])
                     | c1 # cs1 \<Rightarrow>
                         if c1 = CHR ''*'' then (''%!(BADPREC)'', good, False, cs1)
                         else (case parsenum format1 of
                                 (prec, precPresent, rest) \<Rightarrow> ([], good, found, rest))))
          else ([], goodArgNum, afterIndex, format))"

definition utf8_first :: "nat \<Rightarrow> (nat \<times> nat \<times> nat) option" where
  "utf8_first b =
     (if 0xC2 \<le> b \<and> b \<le> 0xDF then Some (2, 0x80, 0xBF)
      else if b = 0xE0 then Some (3, 0xA0, 0xBF)
      else if b = 0xED then Some (3, 0x80, 0x9F)
      else if 0xE1 \<le> b \<and> b \<le> 0xEF then Some (3, 0x80, 0xBF)
      else if b = 0xF0 then Some (4, 0x90, 0xBF)
      else if 0xF1 \<le> b \<and> b \<le> 0xF3 then Some (4, 0x80, 0xBF)
      else if b = 0xF4 then Some (4, 0x80, 0x8F)
      else None)"

definition RuneError :: string where
  "RuneError = [CHR 0xEF, CHR 0xBF, CHR 0xBD]"

definition continuation :: "char \<Rightarrow> bool" where
  "continuation c = (0x80 \<le> byte c \<and> byte c \<le> 0xBF)"

definition decode_verb :: "char \<Rightarrow> string \<Rightarrow> string \<times> string" where
  "decode_verb c cs =
     (if byte c < 0x80 then ([c], cs)
      else (case utf8_first (byte c) of
              None \<Rightarrow> (RuneError, cs)
            | Some (sz, lo, hi) \<Rightarrow>
                if Suc (length cs) < sz then (RuneError, cs)
                else if byte (cs ! 0) < lo \<or> hi < byte (cs ! 0) then (RuneError, cs)
                else if sz \<le> 2 then (c # take 1 cs, drop 1 cs)
                else if \<not> continuation (cs ! 1) then (RuneError, cs)
                else if sz \<le> 3 then (c # take 2 cs, drop 2 cs)
                else if \<not> continuation (cs ! 2) then (RuneError, cs)
                else (c # take 3 cs, drop 3 cs)))"

definition format_verb :: "bool \<Rightarrow> bool \<Rightarrow> string \<Rightarrow> string \<times> string" where
  "format_verb goodArgNum afterIndex format =
     (case (if afterIndex then (goodArgNum, format, afterIndex) else argNumber goodArgNum format) of
        (good, format1, found) \<Rightarrow>
          (case format1 of
             [] \<Rightarrow> (''%!(NOVERB)'', [])
           | c # cs \<Rightarrow>
               (case decode_verb c cs of
                  (verb, rest) \<Rightarrow>
                    if verb = ''%'' then (''%'', rest)
                    else if \<not> good then (''%!'' @ verb @ ''(BADINDEX)'', rest)
                    else (''%!'' @ verb @ ''(MISSING)'', rest))))"

definition directive :: "string \<Rightarrow> string \<times> string" where
  "directive format =
     (case argNumber True (dropWhile is_flag format) of
        (good1, format1, after1) \<Rightarrow>
          (case format_width good1 after1 format1 of
             (out2, good2, after2, format2) \<Rightarrow>
               (case format_precision good2 after2 format2 of
                  (out3, good3, after3, format3) \<Rightarrow>
                    (case format_verb good3 after3 format3 of
                       (out4, rest) \<Rightarrow> (out2 @ out3 @ out4, rest)))))"

function doPrintf :: "string \<Rightarrow> string" where
  "doPrintf [] = []"
| "doPrintf (c # cs) =
     (if c = CHR ''%''
      then (case directive cs of (out, rest) \<Rightarrow> out @ doPrintf rest)
      else c # doPrintf cs)"
  by pat_completeness auto
termination
proof -
  have loop: "length (snd (snd (parsenum_loop num isnum s))) \<le> length s" for num isnum s
    by (induction s arbitrary: num isnum) (auto intro: le_SucI)
  have num: "length rest \<le> length s" if "parsenum s = (n, ok, rest)" for s n ok rest
    using that loop [of 0 False s] by (simp add: parsenum_def)
  have arg: "length rest \<le> length s" if "argNumber g s = (g', rest, found)"
    for g s g' rest found
    using that by (auto simp: argNumber_def split: list.splits if_splits prod.splits)
  have wid: "length rest \<le> length s" if "format_width g a s = (out, g', a', rest)"
    for g a s out g' a' rest
    using that
    by (auto simp: format_width_def split: list.splits if_splits prod.splits dest!: num)
  have prec: "length rest \<le> length s" if "format_precision g a s = (out, g', a', rest)"
    for g a s out g' a' rest
    using that
    by (auto simp: format_precision_def split: list.splits if_splits prod.splits
        dest!: num arg)
  have dec: "length rest \<le> length cs" if "decode_verb c cs = (v, rest)" for c cs v rest
    using that by (auto simp: decode_verb_def split: option.splits if_splits)
  have verb: "length rest \<le> length s" if "format_verb g a s = (out, rest)" for g a s out rest
    using that
    by (auto simp: format_verb_def split: list.splits if_splits prod.splits dest!: arg dec)
  have dir: "length rest \<le> length s" if d: "directive s = (out, rest)" for s out rest
  proof -
    obtain g1 s1 a1 where 1: "argNumber True (dropWhile is_flag s) = (g1, s1, a1)"
      by (cases "argNumber True (dropWhile is_flag s)") auto
    obtain o2 g2 a2 s2 where 2: "format_width g1 a1 s1 = (o2, g2, a2, s2)"
      by (cases "format_width g1 a1 s1") auto
    obtain o3 g3 a3 s3 where 3: "format_precision g2 a2 s2 = (o3, g3, a3, s3)"
      by (cases "format_precision g2 a2 s2") auto
    obtain o4 s4 where 4: "format_verb g3 a3 s3 = (o4, s4)"
      by (cases "format_verb g3 a3 s3") auto
    from d 1 2 3 4 have "rest = s4" by (simp add: directive_def)
    moreover have "length s1 \<le> length s"
      using arg [OF 1] length_dropWhile_le [of is_flag s] by simp
    moreover note wid [OF 2] prec [OF 3] verb [OF 4]
    ultimately show ?thesis by simp
  qed
  show ?thesis
    by (relation "measure length") (auto dest!: dir [OF sym])
qed

definition Fprintf :: "string \<Rightarrow> string" where
  "Fprintf format = doPrintf format"

text \<open>
  The body of \<open>for msg := range c.send\<close>: the retry interval of the options is assigned
  to the message, and \<open>msg.String()\<close> is handed to \<open>fmt.Fprintf\<close> as its format, with no
  operand. \<open>ServeHTTP_write\<close> is what \<open>Fprintf\<close> writes to the response.
\<close>

definition ServeHTTP_stamp :: "Options \<Rightarrow> Message \<Rightarrow> Message" where
  "ServeHTTP_stamp opts msg = msg\<lparr>m_retry := RetryInterval opts\<rparr>"

definition ServeHTTP_write :: "Options \<Rightarrow> Message \<Rightarrow> string" where
  "ServeHTTP_write opts msg = Fprintf (Message_String (ServeHTTP_stamp opts msg))"

subsection \<open>Requests to the hub\<close>

text \<open>
  The requests a hub receives: a connection (\<open>ServeHTTP\<close>), the disconnection of a client
  created earlier, a broadcast (\<open>SendMessageToClient\<close>, which runs in the caller and is
  taken here as one step), \<open>CloseChannel\<close> and \<open>Shutdown\<close>.
\<close>

datatype request =
    Subscribe string string string int
  | Unsubscribe nat
  | Broadcast string string Message
  | CloseTopic string
  | ShutdownHub

fun hub_step :: "request \<Rightarrow> Server \<Rightarrow> outcome" where
  "hub_step (Subscribe lastEventID channel name version) s =
     ServeHTTP_connect lastEventID channel name version s"
| "hub_step (Unsubscribe a) s = dispatch (RemoveClient a) s"
| "hub_step (Broadcast channel client message) s =
     (case SendMessageToClient channel client message s of
        Inl e \<Rightarrow> Panicked e
      | Inr s' \<Rightarrow> Running s')"
| "hub_step (CloseTopic channel) s = dispatch (CloseChannel channel) s"
| "hub_step ShutdownHub s = dispatch Shutdown s"

fun run :: "request list \<Rightarrow> Server \<Rightarrow> outcome" where
  "run [] s = Running s"
| "run (r # rs) s =
     (case hub_step r s of
        Running s' \<Rightarrow> run rs s'
      | Stopped s' \<Rightarrow> Stopped s'
      | Blocked s' \<Rightarrow> Blocked s'
      | Panicked e \<Rightarrow> Panicked e)"

inductive reachable :: "Server \<Rightarrow> bool" where
  start: "reachable (NewServer opts)"
| step: "reachable s \<Longrightarrow> hub_step r s = Running s' \<Longrightarrow> reachable s'"

section \<open>Well-formed hubs and the effect of a broadcast\<close>

text \<open>
  A map entry is \<open>registered\<close> in topic \<open>t\<close> when it holds a client of the store that
  carries the entry's key as its name, \<open>t\<close> as its channel, and an open queue. A hub is
  well-formed (\<open>wf_hub\<close>) when its table has distinct keys and every topic is stored under
  its own name, is not empty, has distinct keys and registered entries only. Every hub
  reached from \<open>NewServer\<close> is well-formed (\<open>reachable_wf\<close> below).

  \<open>receive\<close> is what one subscriber does with a message; \<open>targets t who s\<close> are the
  subscribers a broadcast to topic name \<open>t\<close> and identity \<open>who\<close> addresses;
  \<open>broadcast_result\<close> is the hub after the broadcast, described subscriber by subscriber.
\<close>

definition registered :: "string \<Rightarrow> Client list \<Rightarrow> string \<times> Client_ptr \<Rightarrow> bool" where
  "registered t h e =
     (case snd e of
        None \<Rightarrow> False
      | Some a \<Rightarrow> a < length h \<and> cl_name (h ! a) = fst e \<and> cl_channel (h ! a) = t
                  \<and> \<not> closed (cl_send (h ! a)))"

definition wf_channel :: "Client list \<Rightarrow> string \<times> Channel \<Rightarrow> bool" where
  "wf_channel h e =
     (ch_name (snd e) = fst e \<and> ch_clients (snd e) \<noteq> []
      \<and> distinct (map fst (ch_clients (snd e)))
      \<and> list_all (registered (fst e) h) (ch_clients (snd e)))"

definition wf_hub :: "Server \<Rightarrow> bool" where
  "wf_hub s = (distinct (map fst (channels s)) \<and> list_all (wf_channel (clients_store s)) (channels s))"

definition deliver :: "Message \<Rightarrow> Client \<Rightarrow> Client" where
  "deliver m c = c\<lparr>cl_lastEventID := m_id m, cl_send := (cl_send c)\<lparr>sent := sent (cl_send c) @ [m]\<rparr>\<rparr>"

definition receive :: "Message \<Rightarrow> Client \<Rightarrow> Client" where
  "receive m c = (if m_version m \<le> cl_version c then deliver m c else c)"

definition addressed :: "string \<Rightarrow> Channel \<Rightarrow> nat list" where
  "addressed who ch =
     List.map_filter (\<lambda>e. if who = [] \<or> fst e = who then snd e else None) (ch_clients ch)"

definition resolved :: "string \<Rightarrow> Server \<Rightarrow> (string \<times> Channel) list" where
  "resolved t s = (if t = [] then channels s else filter (\<lambda>e. fst e = t) (channels s))"

definition targets :: "string \<Rightarrow> string \<Rightarrow> Server \<Rightarrow> nat list" where
  "targets t who s = concat (map (\<lambda>e. addressed who (snd e)) (resolved t s))"

definition broadcast_log :: "string \<Rightarrow> Message \<Rightarrow> Server \<Rightarrow> string list" where
  "broadcast_log t m s =
     (if t = [] then (if m_event m \<noteq> ''heartbeat'' then [''broadcasting message to all channels.''] else [])
      else if HasChannel t s then [''message sent to channel '' @ quoted t @ ''.'']
      else [''message not sent because channel '' @ quoted t @ '' has no clients.''])"

definition broadcast_result :: "string \<Rightarrow> string \<Rightarrow> Message \<Rightarrow> Server \<Rightarrow> Server" where
  "broadcast_result t who m s =
     s\<lparr>channels :=
          map (\<lambda>e. (fst e, if (t = [] \<or> fst e = t) \<and> who = []
                             then (snd e)\<lparr>ch_lastEventID := m_id m\<rparr> else snd e)) (channels s),
       clients_store :=
          map (\<lambda>(a, c). if a \<in> set (targets t who s) then receive m c else c)
              (enumerate 0 (clients_store s)),
       logged := logged s @ broadcast_log t m s\<rparr>"

text \<open>
  The same effect, one addressed subscriber after the other, as the loops of the source
  produce it; \<open>open_at\<close> is a valid pointer to a client with an open queue.
\<close>

definition receive_all :: "Message \<Rightarrow> nat list \<Rightarrow> Client list \<Rightarrow> Client list" where
  "receive_all m as h = foldl (\<lambda>h a. h[a := receive m (h ! a)]) h as"

definition open_at :: "Client list \<Rightarrow> nat \<Rightarrow> bool" where
  "open_at h a = (a < length h \<and> \<not> closed (cl_send (h ! a)))"

text \<open>A client whose queue has been closed.\<close>

definition disconnected :: "Client \<Rightarrow> Client" where
  "disconnected c = c\<lparr>cl_send := (cl_send c)\<lparr>closed := True\<rparr>\<rparr>"

text \<open>
  Observations of a hub, and the hubs the examples below run on: \<open>hub_after rs\<close> is the
  hub a new server is in after the requests \<open>rs\<close> (the new server itself, should they
  panic; the examples state the outcome of the run alongside).
\<close>

definition queue_of :: "nat \<Rightarrow> Server \<Rightarrow> Message list" where
  "queue_of a s = sent (cl_send (clients_store s ! a))"

definition closed_of :: "nat \<Rightarrow> Server \<Rightarrow> bool" where
  "closed_of a s = closed (cl_send (clients_store s ! a))"

definition example_options :: Options where
  "example_options = \<lparr>RetryInterval = 3000, Heartbeat = True\<rparr>"

definition example_message :: Message where
  "example_message = NewMessage ''7'' ''hello'' ''update''"

definition hub_after :: "request list \<Rightarrow> Server" where
  "hub_after rs =
     (case run rs (NewServer example_options) of
        Running s \<Rightarrow> s
      | Stopped s \<Rightarrow> s
      | Blocked s \<Rightarrow> s
      | Panicked e \<Rightarrow> NewServer example_options)"

definition example_hub :: Server where
  "example_hub =
     hub_after [Subscribe [] ''news'' ''a'' 0, Subscribe [] ''news'' ''b'' (- 1),
                Subscribe [] ''x'' [] 0]"

definition no_empty_topic :: "Server \<Rightarrow> bool" where
  "no_empty_topic s = list_all (\<lambda>e. 0 < ClientCount (snd e)) (channels s)"



section \<open>Wire format\<close>

lemma payload_lines_not_Nil: "payload_lines d \<noteq> []"
  by (induction d) (auto split: list.splits)

lemma Replace_newline_lines:
  "Replace_newline d @ ''\<newline>''
     = hd (payload_lines d) @ ''\<newline>'' @ concat (map data_line (tl (payload_lines d)))"
proof (induction d)
  case Nil
  show ?case by simp
next
  case (Cons c cs)
  obtain l ls where split: "payload_lines cs = l # ls"
    using payload_lines_not_Nil [of cs] by (cases "payload_lines cs") auto
  show ?case
  proof (cases "c = CHR 0x0A")
    case True
    with Cons split show ?thesis by (simp add: data_line_def)
  next
    case False
    with Cons split show ?thesis by simp
  qed
qed

lemma data_field_lines:
  "''data: '' @ Replace_newline d @ ''\<newline>'' = concat (map data_line (payload_lines d))"
proof -
  obtain l ls where split: "payload_lines d = l # ls"
    using payload_lines_not_Nil [of d] by (cases "payload_lines d") auto
  have "concat (map data_line (payload_lines d))
          = ''data: '' @ (l @ ''\<newline>'' @ concat (map data_line ls))"
    by (simp add: split data_line_def)
  also have "l @ ''\<newline>'' @ concat (map data_line ls) = Replace_newline d @ ''\<newline>''"
    using Replace_newline_lines [of d] by (simp add: split)
  finally show ?thesis by simp
qed

lemma Message_String_fields: "Message_String m = wire_format m"
  using data_field_lines [of "m_data m"]
  by (simp add: Message_String_def wire_format_def)

lemma Sprintf_d_3000: "Sprintf_d 3000 = ''3000''"
  by (simp add: Sprintf_d_def nat_decimal.simps)

text \<open>
  C3. Serialization writes, in this order, the id field iff the id is non-empty, the retry
  field iff the retry interval is positive, the event field iff the event is non-empty, one
  \<open>data: \<close> line per line of the payload iff the payload is non-empty, and then always one
  empty line; the message with data "a\nb", id "7", event "update" and retry 3000 is
  serialized to exactly "id: 7\nretry: 3000\nevent: update\ndata: a\ndata: b\n\n", and
  the message with every field empty to the empty line alone.
\<close>

theorem Message_String_wire_format:
  "Message_String m = wire_format m
   \<and> Message_String \<lparr>m_id = ''7'', m_data = ''a\<newline>b'', m_event = ''update'',
                      m_retry = 3000, m_version = 0\<rparr>
       = ''id: 7\<newline>retry: 3000\<newline>event: update\<newline>data: a\<newline>data: b\<newline>\<newline>''
   \<and> Message_String \<lparr>m_id = [], m_data = [], m_event = [], m_retry = 0, m_version = v\<rparr>
       = ''\<newline>''"
proof (intro conjI)
  show "Message_String m = wire_format m"
    by (rule Message_String_fields)
next
  show "Message_String \<lparr>m_id = ''7'', m_data = ''a\<newline>b'', m_event = ''update'',
                         m_retry = 3000, m_version = 0\<rparr>
       = ''id: 7\<newline>retry: 3000\<newline>event: update\<newline>data: a\<newline>data: b\<newline>\<newline>''"
    by (simp add: Message_String_def Sprintf_d_3000)
next
  show "Message_String \<lparr>m_id = [], m_data = [], m_event = [], m_retry = 0, m_version = v\<rparr>
       = ''\<newline>''"
    by (simp add: Message_String_def)
qed

section \<open>Broadcast\<close>


lemma Client_SendMessage_open:
  "\<not> closed (cl_send c) \<Longrightarrow> Client_SendMessage m c = Inr (receive m c)"
  by (simp add: Client_SendMessage_def chan_send_def receive_def deliver_def)

lemma ptr_SendMessage_open:
  "open_at h a \<Longrightarrow> ptr_SendMessage m (Some a) h = Inr (h[a := receive m (h ! a)])"
  by (simp add: ptr_SendMessage_def open_at_def Client_SendMessage_open)

lemma receive_fields [simp]:
  "cl_name (receive m c) = cl_name c"
  "cl_channel (receive m c) = cl_channel c"
  "cl_version (receive m c) = cl_version c"
  "closed (cl_send (receive m c)) = closed (cl_send c)"
  by (simp_all add: receive_def deliver_def)

lemma open_at_receive [simp]:
  "open_at (h[a := receive m (h ! a)]) b = open_at h b"
  by (cases "a = b") (auto simp: open_at_def)

lemma receive_all_Nil [simp]: "receive_all m [] h = h"
  by (simp add: receive_all_def)

lemma receive_all_Cons [simp]:
  "receive_all m (a # as) h = receive_all m as (h[a := receive m (h ! a)])"
  by (simp add: receive_all_def)

lemma receive_all_append: "receive_all m (as @ bs) h = receive_all m bs (receive_all m as h)"
  by (simp add: receive_all_def)

lemma length_receive_all [simp]: "length (receive_all m as h) = length h"
  by (induction as arbitrary: h) auto

lemma open_at_receive_all [simp]: "open_at (receive_all m as h) b = open_at h b"
  by (induction as arbitrary: h) auto

lemma receive_all_nth:
  "distinct as \<Longrightarrow> i < length h \<Longrightarrow>
     receive_all m as h ! i = (if i \<in> set as then receive m (h ! i) else h ! i)"
proof (induction as arbitrary: h)
  case Nil
  then show ?case by simp
next
  case (Cons a as)
  then show ?case by (cases "a = i") auto
qed

lemma receive_all_fields:
  "i < length h \<Longrightarrow>
     cl_name (receive_all m as h ! i) = cl_name (h ! i)
     \<and> cl_channel (receive_all m as h ! i) = cl_channel (h ! i)
     \<and> cl_version (receive_all m as h ! i) = cl_version (h ! i)
     \<and> closed (cl_send (receive_all m as h ! i)) = closed (cl_send (h ! i))"
proof (induction as arbitrary: h)
  case Nil
  show ?case by simp
next
  case (Cons a as)
  let ?h = "h[a := receive m (h ! a)]"
  have len: "i < length ?h" using Cons.prems by simp
  have same: "cl_name (?h ! i) = cl_name (h ! i) \<and> cl_channel (?h ! i) = cl_channel (h ! i)
       \<and> cl_version (?h ! i) = cl_version (h ! i)
       \<and> closed (cl_send (?h ! i)) = closed (cl_send (h ! i))"
    using Cons.prems by (cases "a = i") simp_all
  show ?case using Cons.IH [OF len] same by simp
qed

lemma receive_all_pointwise:
  assumes "distinct as"
  shows "receive_all m as h
           = map (\<lambda>(a, c). if a \<in> set as then receive m c else c) (enumerate 0 h)"
  by (rule nth_equalityI) (simp_all add: receive_all_nth [OF assms] nth_enumerate_eq)

lemma SendMessage_range_open:
  "list_all (\<lambda>e. \<exists>a. snd e = Some a \<and> open_at h a) cls \<Longrightarrow>
     Channel_SendMessage_range m cls h = Inr (receive_all m (map (the \<circ> snd) cls) h)"
proof (induction cls arbitrary: h)
  case Nil
  then show ?case by simp
next
  case (Cons e cls)
  obtain k p where e: "e = (k, p)" by (cases e)
  from Cons.prems e obtain a where a: "p = Some a" "open_at h a" by auto
  have rest: "list_all (\<lambda>e. \<exists>b. snd e = Some b \<and> open_at (h[a := receive m (h ! a)]) b) cls"
    using Cons.prems by simp
  show ?case
    using Cons.IH [OF rest] a by (simp add: e ptr_SendMessage_open)
qed


lemma registered_open: "registered t h e \<Longrightarrow> \<exists>a. snd e = Some a \<and> open_at h a"
  by (auto simp: registered_def open_at_def split: option.splits)

lemma registered_all_open:
  "list_all (registered t h) cls \<Longrightarrow> list_all (\<lambda>e. \<exists>a. snd e = Some a \<and> open_at h a) cls"
  by (induction cls) (auto dest: registered_open)

lemma registered_receive_all [simp]:
  "registered t (receive_all m as h) = registered t h"
proof (rule ext)
  fix e
  show "registered t (receive_all m as h) e = registered t h e"
  proof (cases "snd e")
  case None
  then show ?thesis by (simp add: registered_def)
next
  case (Some a)
  show ?thesis
  proof (cases "a < length h")
    case True
    with Some receive_all_fields [OF True, of m as] show ?thesis
      by (simp add: registered_def)
  next
    case False
    with Some show ?thesis by (simp add: registered_def)
  qed
qed
qed

lemma wf_channel_receive_all [simp]:
  "wf_channel (receive_all m as h) = wf_channel h"
  by (rule ext) (simp add: wf_channel_def)

lemma map_filter_all:
  "list_all (\<lambda>e. \<exists>a. snd e = Some a \<and> open_at h a) cls \<Longrightarrow>
     List.map_filter (\<lambda>e. snd e) cls = map (the \<circ> snd) cls"
  by (induction cls) auto

lemma map_filter_absent:
  "k \<notin> fst ` set cls \<Longrightarrow> List.map_filter (\<lambda>e. if fst e = k then snd e else None) cls = []"
  by (induction cls) auto

lemma map_filter_one:
  "distinct (map fst cls) \<Longrightarrow>
     List.map_filter (\<lambda>e. if fst e = k then snd e else None) cls
       = (case map_of cls k of None \<Rightarrow> [] | Some None \<Rightarrow> [] | Some (Some a) \<Rightarrow> [a])"
proof (induction cls)
  case Nil
  show ?case by simp
next
  case (Cons e cls)
  show ?case
  proof (cases "fst e = k")
    case True
    with Cons.prems have "k \<notin> fst ` set cls" by auto
    with True show ?thesis
      by (cases e) (auto simp: map_filter_absent split: option.splits)
  next
    case False
    with Cons show ?thesis
      by (cases e) auto
  qed
qed

lemma Channel_SendMessage_wf:
  assumes "wf_channel h (k, ch)"
  shows "Channel_SendMessage who m ch h
           = Inr (if who = [] then ch\<lparr>ch_lastEventID := m_id m\<rparr> else ch,
                  receive_all m (addressed who ch) h)"
proof (cases "who = []")
  case True
  from assms have op: "list_all (\<lambda>e. \<exists>a. snd e = Some a \<and> open_at h a) (ch_clients ch)"
    by (auto simp: wf_channel_def intro: registered_all_open)
  show ?thesis
    using True SendMessage_range_open [OF op, of m] map_filter_all [OF op]
    by (simp add: Channel_SendMessage_def addressed_def)
next
  case False
  from assms have d: "distinct (map fst (ch_clients ch))"
    and reg: "list_all (registered k h) (ch_clients ch)"
    by (auto simp: wf_channel_def)
  have addr: "addressed who ch
      = (case map_of (ch_clients ch) who of None \<Rightarrow> [] | Some None \<Rightarrow> [] | Some (Some a) \<Rightarrow> [a])"
    using False map_filter_one [OF d, of who] by (simp add: addressed_def)
  show ?thesis
  proof (cases "map_of (ch_clients ch) who")
    case None
    with False addr show ?thesis by (simp add: Channel_SendMessage_def)
  next
    case (Some p)
    then have "(who, p) \<in> set (ch_clients ch)" by (rule map_of_SomeD)
    with reg have "registered k h (who, p)" by (auto simp: list_all_iff)
    then obtain a where a: "p = Some a" "open_at h a" by (auto dest: registered_open)
    with False addr Some show ?thesis
      by (simp add: Channel_SendMessage_def ptr_SendMessage_open)
  qed
qed

lemma SendMessageToClient_range_wf:
  "list_all (wf_channel h) chs \<Longrightarrow>
     SendMessageToClient_range who m chs h
       = Inr (map (\<lambda>e. (fst e, if who = [] then (snd e)\<lparr>ch_lastEventID := m_id m\<rparr> else snd e)) chs,
              receive_all m (concat (map (\<lambda>e. addressed who (snd e)) chs)) h)"
proof (induction chs arbitrary: h)
  case Nil
  show ?case by simp
next
  case (Cons e chs)
  obtain k ch where e: "e = (k, ch)" by (cases e)
  from Cons.prems e have w: "wf_channel h (k, ch)" by simp
  have rest: "list_all (wf_channel (receive_all m (addressed who ch) h)) chs"
    using Cons.prems by simp
  show ?case
    using Cons.IH [OF rest] Channel_SendMessage_wf [OF w, of who m]
    by (simp add: e receive_all_append)
qed


lemma addressed_member:
  assumes "list_all (registered t h) (ch_clients ch)" and "a \<in> set (addressed who ch)"
  shows "a < length h \<and> cl_channel (h ! a) = t
         \<and> (cl_name (h ! a), Some a) \<in> set (ch_clients ch)
         \<and> (who = [] \<or> cl_name (h ! a) = who)"
proof -
  from assms(2) obtain e where e: "e \<in> set (ch_clients ch)" "snd e = Some a"
      "who = [] \<or> fst e = who"
    by (auto simp: addressed_def List.map_filter_def split: if_splits)
  from assms(1) e(1) have "registered t h e" by (simp add: list_all_iff)
  with e(2) have r: "a < length h" "cl_name (h ! a) = fst e" "cl_channel (h ! a) = t"
    by (simp_all add: registered_def)
  from r(2) e(2) have "e = (cl_name (h ! a), Some a)" by (cases e) simp
  with e(1) have "(cl_name (h ! a), Some a) \<in> set (ch_clients ch)" by simp
  with r e(3) show ?thesis by simp
qed

lemma distinct_map_filter_registered:
  "distinct (map fst cls) \<Longrightarrow> list_all (registered t h) cls \<Longrightarrow>
     distinct (List.map_filter (\<lambda>e. if P (fst e) then snd e else None) cls)"
proof (induction cls)
  case Nil
  show ?case by simp
next
  case (Cons e cls)
  obtain k p where e: "e = (k, p)" by (cases e)
  from Cons.prems e obtain a where a: "p = Some a" "cl_name (h ! a) = k"
    by (auto simp: registered_def split: option.splits)
  have "a \<notin> set (List.map_filter (\<lambda>e. if P (fst e) then snd e else None) cls)"
  proof
    assume "a \<in> set (List.map_filter (\<lambda>e. if P (fst e) then snd e else None) cls)"
    then obtain e' where e': "e' \<in> set cls" "snd e' = Some a"
      by (auto simp: List.map_filter_def split: if_splits)
    with Cons.prems have "registered t h e'" by (simp add: list_all_iff)
    with e'(2) have "cl_name (h ! a) = fst e'" by (simp add: registered_def)
    with a e'(1) have "k \<in> fst ` set cls" by auto
    with Cons.prems e show False by simp
  qed
  with Cons a e show ?case by simp
qed

lemma distinct_addressed:
  assumes "distinct (map fst (ch_clients ch))" and "list_all (registered t h) (ch_clients ch)"
  shows "distinct (addressed who ch)"
  using distinct_map_filter_registered [OF assms, of "\<lambda>k. who = [] \<or> k = who"]
  by (simp add: addressed_def)

lemma distinct_all_addressed:
  "distinct (map fst chs) \<Longrightarrow> list_all (wf_channel h) chs \<Longrightarrow>
     distinct (concat (map (\<lambda>e. addressed who (snd e)) chs))"
proof (induction chs)
  case Nil
  show ?case by simp
next
  case (Cons e chs)
  obtain k ch where e: "e = (k, ch)" by (cases e)
  from Cons.prems e have reg: "list_all (registered k h) (ch_clients ch)"
    and d: "distinct (map fst (ch_clients ch))"
    by (simp_all add: wf_channel_def)
  have disj: "set (addressed who ch) \<inter> set (concat (map (\<lambda>e. addressed who (snd e)) chs)) = {}"
  proof (rule ccontr)
    assume "\<not> ?thesis"
    then obtain a e' where a: "a \<in> set (addressed who ch)" "e' \<in> set chs"
        "a \<in> set (addressed who (snd e'))"
      by auto
    from Cons.prems a(2) have "list_all (registered (fst e') h) (ch_clients (snd e'))"
      by (simp add: list_all_iff wf_channel_def)
    from addressed_member [OF this a(3)] addressed_member [OF reg a(1)]
    have "fst e' = k" by simp
    with a(2) have "k \<in> fst ` set chs" by auto
    with Cons.prems e show False by simp
  qed
  show ?case
    using Cons disj distinct_addressed [OF d reg, of who] by (simp add: e)
qed

lemma filter_key:
  "distinct (map fst xs) \<Longrightarrow>
     filter (\<lambda>e. fst e = k) xs = (case map_of xs k of None \<Rightarrow> [] | Some v \<Rightarrow> [(k, v)])"
proof (induction xs)
  case Nil
  show ?case by simp
next
  case (Cons e xs)
  show ?case
  proof (cases "fst e = k")
    case True
    with Cons.prems have "k \<notin> fst ` set xs" by auto
    then have "filter (\<lambda>e. fst e = k) xs = []" by (auto simp: filter_empty_conv)
    with True show ?thesis by (cases e) auto
  next
    case False
    with Cons show ?thesis by (cases e) auto
  qed
qed

lemma update_as_map:
  "distinct (map fst xs) \<Longrightarrow> map_of xs k = Some v \<Longrightarrow>
     AList.update k (f v) xs = map (\<lambda>e. (fst e, if fst e = k then f (snd e) else snd e)) xs"
proof (induction xs)
  case Nil
  then show ?case by simp
next
  case (Cons e xs)
  show ?case
  proof (cases "fst e = k")
    case True
    with Cons.prems have "k \<notin> fst ` set xs" by auto
    then have "map (\<lambda>e. (fst e, if fst e = k then f (snd e) else snd e)) xs = xs"
      by (induction xs) auto
    with True Cons.prems show ?thesis by (cases e) auto
  next
    case False
    with Cons show ?thesis by (cases e) auto
  qed
qed

lemma SendMessageToClient_wf:
  assumes "wf_hub s"
  shows "SendMessageToClient t who m s = Inr (broadcast_result t who m s)"
proof (cases "t = []")
  case True
  from assms have chs: "list_all (wf_channel (clients_store s)) (channels s)"
    and d: "distinct (map fst (channels s))"
    by (simp_all add: wf_hub_def)
  have dt: "distinct (targets t who s)"
    using True distinct_all_addressed [OF d chs, of who] by (simp add: targets_def resolved_def)
  show ?thesis
    using True SendMessageToClient_range_wf [OF chs, of who m] receive_all_pointwise [OF dt, of m]
    by (simp add: SendMessageToClient_def broadcast_result_def broadcast_log_def Print_def
        targets_def resolved_def)
next
  case False
  from assms have chs: "list_all (wf_channel (clients_store s)) (channels s)"
    and d: "distinct (map fst (channels s))"
    by (simp_all add: wf_hub_def)
  show ?thesis
  proof (cases "map_of (channels s) t")
    case None
    then have "targets t who s = []"
      using False filter_key [OF d, of t] by (simp add: targets_def resolved_def)
    moreover from None have "t \<notin> fst ` set (channels s)" by (simp add: map_of_eq_None_iff)
    then have "map (\<lambda>e. (fst e, if (t = [] \<or> fst e = t) \<and> who = []
                             then (snd e)\<lparr>ch_lastEventID := m_id m\<rparr> else snd e)) (channels s)
               = channels s"
      using False by (intro map_idI) (auto simp: rev_image_eqI)
    moreover have "map (\<lambda>(a, c). c) (enumerate 0 (clients_store s)) = clients_store s"
      by (simp add: case_prod_unfold)
    ultimately show ?thesis
      using False None
      by (simp add: SendMessageToClient_def broadcast_result_def broadcast_log_def Print_def
          HasChannel_def)
  next
    case (Some ch)
    then have mem: "(t, ch) \<in> set (channels s)" by (rule map_of_SomeD)
    with chs have w: "wf_channel (clients_store s) (t, ch)" by (simp add: list_all_iff)
    have tg: "targets t who s = addressed who ch"
      using False Some filter_key [OF d, of t] by (simp add: targets_def resolved_def)
    have dt: "distinct (targets t who s)"
      using w distinct_addressed [of ch t "clients_store s" who] by (simp add: tg wf_channel_def)
    have upd: "AList.update t (if who = [] then ch\<lparr>ch_lastEventID := m_id m\<rparr> else ch) (channels s)
        = map (\<lambda>e. (fst e, if (t = [] \<or> fst e = t) \<and> who = []
                             then (snd e)\<lparr>ch_lastEventID := m_id m\<rparr> else snd e)) (channels s)"
      using update_as_map [OF d Some, of "\<lambda>c. if who = [] then c\<lparr>ch_lastEventID := m_id m\<rparr> else c"]
        False
      by (simp cong: map_cong)
    show ?thesis
      using False Some Channel_SendMessage_wf [OF w, of who m] receive_all_pointwise [OF dt, of m]
        upd
      by (simp add: SendMessageToClient_def broadcast_result_def broadcast_log_def Print_def
          HasChannel_def tg)
  qed
qed

section \<open>Every reachable hub is well-formed\<close>


lemma wf_hub_Print [simp]: "wf_hub (Print line s) = wf_hub s"
  by (simp add: wf_hub_def Print_def)

lemma channels_Print [simp]: "channels (Print line s) = channels s"
  and clients_store_Print [simp]: "clients_store (Print line s) = clients_store s"
  and options_Print [simp]: "options (Print line s) = options s"
  by (simp_all add: Print_def)

lemma wf_hub_NewServer: "wf_hub (NewServer opts)"
  by (simp add: wf_hub_def NewServer_def)

lemma registered_append: "registered t h e \<Longrightarrow> registered t (h @ cs) e"
  by (auto simp: registered_def nth_append split: option.splits)

lemma wf_channel_append: "wf_channel h e \<Longrightarrow> wf_channel (h @ cs) e"
  by (auto simp: wf_channel_def list_all_iff intro: registered_append)

lemma registered_update_other:
  "registered t h e \<Longrightarrow> snd e \<noteq> Some a \<Longrightarrow> registered t (h[a := x]) e"
  by (auto simp: registered_def split: option.splits)

lemma list_all_update_key':
  "distinct (map fst xs) \<Longrightarrow> P (k, v) \<Longrightarrow> \<forall>e\<in>set xs. fst e \<noteq> k \<longrightarrow> P e \<Longrightarrow>
     list_all P (AList.update k v xs)"
  by (induction xs) (auto simp: list_all_iff rev_image_eqI)

lemma list_all_update_key:
  "distinct (map fst xs) \<Longrightarrow> P (k, v) \<Longrightarrow> (\<And>e. e \<in> set xs \<Longrightarrow> fst e \<noteq> k \<Longrightarrow> P e) \<Longrightarrow>
     list_all P (AList.update k v xs)"
  by (rule list_all_update_key') auto

lemma list_all_delete_key':
  "\<forall>e\<in>set xs. fst e \<noteq> k \<longrightarrow> P e \<Longrightarrow> list_all P (AList.delete k xs)"
  by (induction xs) auto

lemma list_all_delete_key:
  "(\<And>e. e \<in> set xs \<Longrightarrow> fst e \<noteq> k \<Longrightarrow> P e) \<Longrightarrow> list_all P (AList.delete k xs)"
  by (rule list_all_delete_key') auto

lemma registered_update_list:
  assumes "distinct (map fst cls)" and "list_all (registered t h) cls"
    and "registered t h (n, Some a)"
  shows "list_all (registered t h) (AList.update n (Some a) cls)"
  using assms by (intro list_all_update_key) (auto simp: list_all_iff)

lemma ServeHTTP_connect_new:
  assumes "map_of (channels s) t = None"
  shows "ServeHTTP_connect l t n v s
           = Running (s\<lparr>clients_store := clients_store s @ [newClient l t n v],
                       channels := AList.update t
                          (Channel_addClient (length (clients_store s)) (newClient l t n v)
                             (newChannel t)) (channels s),
                       logged := logged s @ [''channel '' @ quoted t @ '' created.'',
                          ''new client connected to channel '' @ quoted t @ ''.'']\<rparr>)"
  using assms
  by (simp add: ServeHTTP_connect_def dispatch_addClient_def Let_def newClient_def Print_def
      newChannel_def)

lemma ServeHTTP_connect_existing:
  assumes "map_of (channels s) t = Some ch"
  shows "ServeHTTP_connect l t n v s
           = Running (s\<lparr>clients_store := clients_store s @ [newClient l t n v],
                       channels := AList.update t
                          (Channel_addClient (length (clients_store s)) (newClient l t n v) ch)
                          (channels s),
                       logged := logged s
                          @ [''new client connected to channel '' @ quoted (ch_name ch) @ ''.'']\<rparr>)"
  using assms
  by (simp add: ServeHTTP_connect_def dispatch_addClient_def Let_def newClient_def Print_def)

lemma wf_hub_connect:
  assumes "wf_hub s" and "ServeHTTP_connect l t n v s = Running s'"
  shows "wf_hub s'"
proof -
  let ?h = "clients_store s @ [newClient l t n v]"
  let ?a = "length (clients_store s)"
  from assms(1) have d: "distinct (map fst (channels s))"
    and chs: "list_all (wf_channel (clients_store s)) (channels s)"
    by (simp_all add: wf_hub_def)
  have chs': "\<And>e. e \<in> set (channels s) \<Longrightarrow> wf_channel ?h e"
    using chs by (auto simp: list_all_iff intro: wf_channel_append)
  have new: "registered t ?h (n, Some ?a)"
    by (simp add: registered_def newClient_def make_chan_def)
  show ?thesis
  proof (cases "map_of (channels s) t")
    case None
    have w: "wf_channel ?h (t, Channel_addClient ?a (newClient l t n v) (newChannel t))"
      using new by (simp add: wf_channel_def Channel_addClient_def newChannel_def newClient_def)
    have "list_all (wf_channel ?h)
            (AList.update t (Channel_addClient ?a (newClient l t n v) (newChannel t)) (channels s))"
      using d w chs' by (intro list_all_update_key) auto
    with d assms(2) show ?thesis
      unfolding ServeHTTP_connect_new [OF None]
      by (auto simp: wf_hub_def distinct_update)
  next
    case (Some ch)
    then have "(t, ch) \<in> set (channels s)" by (rule map_of_SomeD)
    from chs' [OF this] have wch: "ch_name ch = t" "distinct (map fst (ch_clients ch))"
        "list_all (registered t ?h) (ch_clients ch)"
      by (simp_all add: wf_channel_def)
    have w: "wf_channel ?h (t, Channel_addClient ?a (newClient l t n v) ch)"
      using wch registered_update_list [OF wch(2) wch(3) new]
      by (simp add: wf_channel_def Channel_addClient_def newClient_def distinct_update)
    have "list_all (wf_channel ?h)
            (AList.update t (Channel_addClient ?a (newClient l t n v) ch) (channels s))"
      using d w chs' by (intro list_all_update_key) auto
    with d assms(2) show ?thesis
      unfolding ServeHTTP_connect_existing [OF Some]
      by (auto simp: wf_hub_def distinct_update)
  qed
qed

lemma removeClient_Inr:
  assumes "Channel_removeClient p c h = Inr (c', h')"
  obtains a where "p = Some a" "a < length h" "\<not> closed (cl_send (h ! a))"
    "c' = c\<lparr>ch_clients := AList.delete (cl_name (h ! a)) (ch_clients c)\<rparr>"
    "h' = h[a := disconnected (h ! a)]"
  using assms
  by (auto simp: Channel_removeClient_def chan_close_def disconnected_def delete_update_same
      split: option.splits if_splits)

lemma removeClient_open:
  "a < length h \<Longrightarrow> \<not> closed (cl_send (h ! a)) \<Longrightarrow>
     Channel_removeClient (Some a) c h
       = Inr (c\<lparr>ch_clients := AList.delete (cl_name (h ! a)) (ch_clients c)\<rparr>,
              h[a := disconnected (h ! a)])"
  by (simp add: Channel_removeClient_def chan_close_def disconnected_def delete_update_same)

lemma registered_after_remove:
  assumes "list_all (registered t h) cls"
  shows "list_all (registered t (h[a := x])) (AList.delete (cl_name (h ! a)) cls)"
proof (rule list_all_delete_key)
  fix e assume e: "e \<in> set cls" "fst e \<noteq> cl_name (h ! a)"
  with assms have r: "registered t h e" by (simp add: list_all_iff)
  with e(2) have "snd e \<noteq> Some a" by (auto simp: registered_def)
  with r show "registered t (h[a := x]) e" by (rule registered_update_other)
qed

lemma registered_other_topic:
  assumes "list_all (registered t' h) cls" and "cl_channel (h ! a) \<noteq> t'"
  shows "list_all (registered t' (h[a := x])) cls"
proof -
  have "registered t' (h[a := x]) e" if "e \<in> set cls" for e
  proof -
    from assms(1) that have r: "registered t' h e" by (simp add: list_all_iff)
    with assms(2) have "snd e \<noteq> Some a" by (auto simp: registered_def)
    with r show ?thesis by (rule registered_update_other)
  qed
  then show ?thesis by (simp add: list_all_iff)
qed

lemma wf_channel_other_topic:
  "wf_channel h e \<Longrightarrow> cl_channel (h ! a) \<noteq> fst e \<Longrightarrow> wf_channel (h[a := x]) e"
  by (simp add: wf_channel_def registered_other_topic)


lemma Channel_Close_empty: "ch_clients c = [] \<Longrightarrow> Channel_Close c h = Inr (c, h)"
  by (simp add: Channel_Close_def)

lemma dispatch_removeClient_absent:
  "a < length (clients_store s) \<Longrightarrow> map_of (channels s) (cl_channel (clients_store s ! a)) = None
     \<Longrightarrow> dispatch_removeClient a s = Running s"
  by (simp add: dispatch_removeClient_def)

lemma dispatch_removeClient_closed:
  "a < length (clients_store s) \<Longrightarrow> map_of (channels s) (cl_channel (clients_store s ! a)) = Some ch
     \<Longrightarrow> closed (cl_send (clients_store s ! a))
     \<Longrightarrow> dispatch_removeClient a s = Panicked Close_of_closed_channel"
  by (simp add: dispatch_removeClient_def Channel_removeClient_def chan_close_def)

lemma dispatch_removeClient_open:
  assumes "a < length (clients_store s)"
    and "map_of (channels s) (cl_channel (clients_store s ! a)) = Some ch"
    and "\<not> closed (cl_send (clients_store s ! a))"
  shows "dispatch_removeClient a s
     = (let c = clients_store s ! a;
            ch1 = ch\<lparr>ch_clients := AList.delete (cl_name c) (ch_clients ch)\<rparr>;
            h1 = (clients_store s)[a := disconnected c]
        in if ch_clients ch1 = []
           then Running (s\<lparr>channels := AList.delete (ch_name ch)
                                          (AList.update (cl_channel c) ch1 (channels s)),
                            clients_store := h1,
                            logged := logged s
                              @ [''client disconnected from channel '' @ quoted (ch_name ch) @ ''.'',
                                 ''checking if channel '' @ quoted (ch_name ch) @ '' has clients.'',
                                 ''channel '' @ quoted (ch_name ch) @ '' has no clients.'']\<rparr>)
           else Running (s\<lparr>channels := AList.update (cl_channel c) ch1 (channels s),
                            clients_store := h1,
                            logged := logged s
                              @ [''client disconnected from channel '' @ quoted (ch_name ch) @ ''.'',
                                 ''checking if channel '' @ quoted (ch_name ch) @ '' has clients.'']\<rparr>))"
  using assms
  by (simp add: dispatch_removeClient_def removeClient_open Let_def ClientCount_def
      Channel_Close_empty Print_def)

lemma wf_hub_removeClient:
  assumes "wf_hub s" and "dispatch_removeClient a s = Running s'"
  shows "wf_hub s'"
proof -
  let ?h = "clients_store s"
  let ?c = "?h ! a"
  let ?t = "cl_channel ?c"
  from assms(1) have d: "distinct (map fst (channels s))"
    and chs: "list_all (wf_channel ?h) (channels s)"
    by (simp_all add: wf_hub_def)
  from assms(2) have len: "a < length ?h"
    by (auto simp: dispatch_removeClient_def split: if_splits)
  show ?thesis
  proof (cases "map_of (channels s) ?t")
    case None
    with assms len show ?thesis by (simp add: dispatch_removeClient_absent)
  next
    case (Some ch)
    with assms(2) len have op: "\<not> closed (cl_send ?c)"
      by (auto simp: dispatch_removeClient_closed)
    let ?ch1 = "ch\<lparr>ch_clients := AList.delete (cl_name ?c) (ch_clients ch)\<rparr>"
    let ?h1 = "?h[a := disconnected ?c]"
    from Some have "(?t, ch) \<in> set (channels s)" by (rule map_of_SomeD)
    with chs have wch: "wf_channel ?h (?t, ch)" by (simp add: list_all_iff)
    then have nm: "ch_name ch = ?t" by (simp add: wf_channel_def)
    have others: "wf_channel ?h1 e" if "e \<in> set (channels s)" "fst e \<noteq> ?t" for e
    proof -
      from chs that(1) have "wf_channel ?h e" by (simp add: list_all_iff)
      with that(2) show ?thesis by (intro wf_channel_other_topic) auto
    qed
    have reg1: "list_all (registered ?t ?h1) (ch_clients ?ch1)"
      using wch registered_after_remove [of ?t ?h "ch_clients ch" a "disconnected ?c"]
      by (simp add: wf_channel_def)
    show ?thesis
    proof (cases "ch_clients ?ch1 = []")
      case True
      have "list_all (wf_channel ?h1) (AList.delete ?t (channels s))"
        using others by (intro list_all_delete_key) auto
      with True assms(2) d nm show ?thesis
        unfolding dispatch_removeClient_open [OF len Some op]
        by (auto simp: wf_hub_def Let_def delete_update_same distinct_delete)
    next
      case False
      have "wf_channel ?h1 (?t, ?ch1)"
        using False wch reg1 by (simp add: wf_channel_def distinct_delete)
      then have "list_all (wf_channel ?h1) (AList.update ?t ?ch1 (channels s))"
        using d others by (intro list_all_update_key) auto
      with False assms(2) d show ?thesis
        unfolding dispatch_removeClient_open [OF len Some op]
        by (auto simp: wf_hub_def Let_def distinct_update)
    qed
  qed
qed

lemma Channel_Close_range_outside:
  "list_all (registered t h) (ch_clients c) \<Longrightarrow> Channel_Close_range todo c h = Inr (c', h')
     \<Longrightarrow> length h' = length h \<and> (\<forall>i. cl_channel (h ! i) \<noteq> t \<longrightarrow> h' ! i = h ! i)"
proof (induction todo arbitrary: c h)
  case Nil
  then show ?case by simp
next
  case (Cons e todo)
  obtain k old where e: "e = (k, old)" by (cases e)
  show ?case
  proof (cases "map_of (ch_clients c) k")
    case None
    with Cons e show ?thesis by simp
  next
    case (Some p)
    with Cons.prems(2) e obtain c1 h1 where r: "Channel_removeClient p c h = Inr (c1, h1)"
      and rest: "Channel_Close_range todo c1 h1 = Inr (c', h')"
      by (auto split: sum.splits)
    from r obtain a where a: "p = Some a" "a < length h"
        "c1 = c\<lparr>ch_clients := AList.delete (cl_name (h ! a)) (ch_clients c)\<rparr>"
        "h1 = h[a := disconnected (h ! a)]"
      by (rule removeClient_Inr)
    from Some have "(k, p) \<in> set (ch_clients c)" by (rule map_of_SomeD)
    with Cons.prems(1) have "registered t h (k, p)" by (simp add: list_all_iff)
    with a(1) have ta: "cl_channel (h ! a) = t" by (simp add: registered_def)
    have "list_all (registered t h1) (ch_clients c1)"
      using registered_after_remove [OF Cons.prems(1)] a by simp
    from Cons.IH [OF this rest]
    have ih: "length h' = length h1" "\<And>i. cl_channel (h1 ! i) \<noteq> t \<Longrightarrow> h' ! i = h1 ! i"
      by simp_all
    have "h' ! i = h ! i" if "cl_channel (h ! i) \<noteq> t" for i
    proof -
      from that ta have "i \<noteq> a" by auto
      then have "h1 ! i = h ! i" by (simp add: a)
      with that ih(2) [of i] show ?thesis by simp
    qed
    with ih(1) a(4) show ?thesis by simp
  qed
qed

lemma registered_outside:
  assumes "registered t' h e" and "t' \<noteq> t" and "length h' = length h"
    and "\<And>i. cl_channel (h ! i) \<noteq> t \<Longrightarrow> h' ! i = h ! i"
  shows "registered t' h' e"
  using assms by (auto simp: registered_def split: option.splits)

lemma wf_hub_closeChannel:
  assumes "wf_hub s" and "dispatch_closeChannel name s = Running s'"
  shows "wf_hub s'"
proof (cases "map_of (channels s) name")
  case None
  with assms show ?thesis by (auto simp: dispatch_closeChannel_def)
next
  case (Some ch)
  let ?h = "clients_store s"
  from assms(1) have d: "distinct (map fst (channels s))"
    and chs: "list_all (wf_channel ?h) (channels s)"
    by (simp_all add: wf_hub_def)
  from Some assms(2) obtain ch' h' where cl: "Channel_Close ch ?h = Inr (ch', h')"
    and s': "s' = Print (''channel '' @ quoted (ch_name ch) @ '' closed.'')
                    (s\<lparr>channels := AList.delete name (channels s), clients_store := h'\<rparr>)"
    by (auto simp: dispatch_closeChannel_def split: sum.splits)
  from Some have "(name, ch) \<in> set (channels s)" by (rule map_of_SomeD)
  with chs have "wf_channel ?h (name, ch)" by (simp add: list_all_iff)
  then have "list_all (registered name ?h) (ch_clients ch)"
    by (simp add: wf_channel_def)
  from Channel_Close_range_outside [OF this cl [unfolded Channel_Close_def]]
  have out: "length h' = length ?h" "\<And>i. cl_channel (?h ! i) \<noteq> name \<Longrightarrow> h' ! i = ?h ! i"
    by simp_all
  have "list_all (wf_channel h') (AList.delete name (channels s))"
  proof (rule list_all_delete_key)
    fix e assume e: "e \<in> set (channels s)" "fst e \<noteq> name"
    with chs have w: "wf_channel ?h e" by (simp add: list_all_iff)
    then have "list_all (registered (fst e) h') (ch_clients (snd e))"
      using e(2) out by (auto simp: wf_channel_def list_all_iff intro: registered_outside)
    with w show "wf_channel h' e" by (simp add: wf_channel_def)
  qed
  with d show ?thesis by (simp add: s' wf_hub_def distinct_delete)
qed


lemma distinct_targets:
  assumes "wf_hub s"
  shows "distinct (targets t who s)"
proof -
  from assms have chs: "list_all (wf_channel (clients_store s)) (channels s)"
    and d: "distinct (map fst (channels s))"
    by (simp_all add: wf_hub_def)
  show ?thesis
  proof (cases "t = []")
    case True
    with distinct_all_addressed [OF d chs, of who] show ?thesis
      by (simp add: targets_def resolved_def)
  next
    case False
    show ?thesis
    proof (cases "map_of (channels s) t")
      case None
      with False filter_key [OF d, of t] show ?thesis by (simp add: targets_def resolved_def)
    next
      case (Some ch)
      then have "(t, ch) \<in> set (channels s)" by (rule map_of_SomeD)
      with chs have "wf_channel (clients_store s) (t, ch)" by (simp add: list_all_iff)
      then have "distinct (addressed who ch)"
        using distinct_addressed [of ch t "clients_store s" who] by (simp add: wf_channel_def)
      with False Some filter_key [OF d, of t] show ?thesis
        by (simp add: targets_def resolved_def)
    qed
  qed
qed

lemma broadcast_result_store:
  "wf_hub s \<Longrightarrow>
     clients_store (broadcast_result t who m s) = receive_all m (targets t who s) (clients_store s)"
  by (simp add: broadcast_result_def receive_all_pointwise [OF distinct_targets])

lemma wf_hub_broadcast_result:
  assumes "wf_hub s"
  shows "wf_hub (broadcast_result t who m s)"
proof -
  let ?f = "\<lambda>e. (fst e, if (t = [] \<or> fst e = t) \<and> who = []
                          then (snd e)\<lparr>ch_lastEventID := m_id m\<rparr> else snd e)"
  from assms have chs: "list_all (wf_channel (clients_store s)) (channels s)"
    and d: "distinct (map fst (channels s))"
    by (simp_all add: wf_hub_def)
  have ch: "channels (broadcast_result t who m s) = map ?f (channels s)"
    by (simp add: broadcast_result_def)
  have keys: "map fst (map ?f (channels s)) = map fst (channels s)"
    by (simp add: comp_def)
  have same: "wf_channel h (?f e) = wf_channel h e" for h e
    by (simp add: wf_channel_def)
  have "list_all (wf_channel (clients_store s)) (map ?f (channels s))"
    using chs by (simp add: list_all_iff same)
  moreover have "distinct (map fst (map ?f (channels s)))" unfolding keys by (rule d)
  ultimately show ?thesis
    unfolding wf_hub_def ch broadcast_result_store [OF assms] by (simp del: map_map)
qed

lemma dispatch_shutdown_not_Running: "dispatch_shutdown s \<noteq> Running s'"
  by (simp add: dispatch_shutdown_def close_control_def)

lemma wf_hub_step:
  assumes "wf_hub s" and "hub_step r s = Running s'"
  shows "wf_hub s'"
proof (cases r)
  case (Subscribe l t n v)
  with assms show ?thesis by (auto intro: wf_hub_connect)
next
  case (Unsubscribe a)
  with assms show ?thesis by (auto intro: wf_hub_removeClient)
next
  case (Broadcast t who m)
  with assms show ?thesis
    by (auto simp: SendMessageToClient_wf intro: wf_hub_broadcast_result)
next
  case (CloseTopic t)
  with assms show ?thesis by (auto intro: wf_hub_closeChannel)
next
  case ShutdownHub
  with assms show ?thesis by (simp add: dispatch_shutdown_not_Running)
qed

lemma reachable_wf: "reachable s \<Longrightarrow> wf_hub s"
  by (induction rule: reachable.induct) (auto intro: wf_hub_NewServer wf_hub_step)

lemma run_reachable: "reachable s \<Longrightarrow> run rs s = Running s' \<Longrightarrow> reachable s'"
proof (induction rs arbitrary: s)
  case Nil
  then show ?case by simp
next
  case (Cons r rs)
  then show ?case
    by (auto split: outcome.splits intro: reachable.step)
qed

section \<open>Routing of a broadcast, and the version gate\<close>


lemmas eval_defs = ServeHTTP_connect_def dispatch_addClient_def dispatch_removeClient_def
  dispatch_closeChannel_def dispatch_shutdown_def SendMessageToClient_def
  Channel_SendMessage_def Channel_removeClient_def Channel_Close_def Channel_addClient_def
  ptr_SendMessage_def Client_SendMessage_def chan_send_def chan_close_def close_control_def
  close_returns_in_dispatch_def newClient_def newChannel_def make_chan_def NewServer_def
  Print_def quoted_def ClientCount_def Let_def HasChannel_def
  NewMessage_def example_options_def example_message_def hub_after_def example_hub_def
  queue_of_def closed_of_def

lemmas spec_defs = wf_hub_def wf_channel_def registered_def broadcast_result_def
  broadcast_log_def targets_def resolved_def addressed_def receive_def deliver_def

lemma run_example_hub:
  "run [Subscribe [] ''news'' ''a'' 0, Subscribe [] ''news'' ''b'' (- 1), Subscribe [] ''x'' [] 0]
       (NewServer example_options) = Running example_hub"
  by (simp add: eval_defs)

lemma example_hub_reachable: "reachable example_hub"
  using run_reachable [OF reachable.start run_example_hub] .

lemma example_hub_channels:
  "channels example_hub
     = [(''news'', \<lparr>ch_lastEventID = [], ch_name = ''news'',
                    ch_clients = [(''a'', Some 0), (''b'', Some 1)]\<rparr>),
        (''x'', \<lparr>ch_lastEventID = [], ch_name = ''x'', ch_clients = [([], Some 2)]\<rparr>)]"
  by (simp add: eval_defs)

lemma example_hub_store:
  "clients_store example_hub
     = [newClient [] ''news'' ''a'' 0, newClient [] ''news'' ''b'' (- 1), newClient [] ''x'' [] 0]"
  by (simp add: eval_defs)

text \<open>
  C1. In a well-formed hub a call \<open>Broadcast(topicName, subscriberIdentity, m)\<close> returns
  the hub \<open>broadcast_result\<close> describes: with an empty topic name every topic of the table
  is resolved, with the name of an existing topic that topic only, with any other name no
  topic, and then table and clients are left as they were and one line is logged. In each
  resolved topic an empty identity addresses every subscriber and sets the topic's
  \<open>lastEventID\<close> to the id of \<open>m\<close>; a non-empty identity addresses the subscriber of that
  name, if there is one, and leaves \<open>lastEventID\<close> alone. Every addressed subscriber
  takes \<open>m\<close> through its version gate (\<open>receive\<close>), every other client is unchanged.
\<close>

theorem Broadcast_routing:
  assumes "wf_hub s"
  shows "SendMessageToClient topicName subscriberIdentity m s
           = Inr (broadcast_result topicName subscriberIdentity m s)
         \<and> (topicName \<noteq> [] \<and> \<not> HasChannel topicName s \<longrightarrow>
              channels (broadcast_result topicName subscriberIdentity m s) = channels s
              \<and> clients_store (broadcast_result topicName subscriberIdentity m s) = clients_store s)"
proof -
  have main: "SendMessageToClient topicName subscriberIdentity m s
           = Inr (broadcast_result topicName subscriberIdentity m s)"
    using assms by (rule SendMessageToClient_wf)
  have "channels (broadcast_result topicName subscriberIdentity m s) = channels s
      \<and> clients_store (broadcast_result topicName subscriberIdentity m s) = clients_store s"
    if "topicName \<noteq> []" "\<not> HasChannel topicName s"
  proof -
    from that have "SendMessageToClient topicName subscriberIdentity m s
        = Inr (Print (''message not sent because channel '' @ quoted topicName
                            @ '' has no clients.'') s)"
      by (simp add: SendMessageToClient_def HasChannel_def)
    with main have "broadcast_result topicName subscriberIdentity m s
        = Print (''message not sent because channel '' @ quoted topicName
                            @ '' has no clients.'') s"
      by simp
    then show ?thesis by simp
  qed
  with main show ?thesis by blast
qed

theorem Broadcast_routing_witness:
  "wf_hub example_hub
   \<and> SendMessageToClient ''news'' [] example_message example_hub
       = Inr (broadcast_result ''news'' [] example_message example_hub)
   \<and> targets ''news'' [] example_hub = [0, 1]
   \<and> map (\<lambda>a. queue_of a (broadcast_result ''news'' [] example_message example_hub)) [0, 1, 2]
       = [[example_message], [], []]
   \<and> \<not> HasChannel ''sports'' example_hub
   \<and> channels (broadcast_result ''sports'' [] example_message example_hub) = channels example_hub"
proof -
  have w: "wf_hub example_hub" using example_hub_reachable by (rule reachable_wf)
  have t: "targets ''news'' [] example_hub = [0, 1]"
    by (simp add: targets_def resolved_def addressed_def example_hub_channels)
  have q: "map (\<lambda>a. queue_of a (broadcast_result ''news'' [] example_message example_hub)) [0, 1, 2]
       = [[example_message], [], []]"
    by (simp add: broadcast_result_def t example_hub_store queue_of_def receive_def deliver_def
        newClient_def make_chan_def example_message_def NewMessage_def)
  have n: "\<not> HasChannel ''sports'' example_hub"
    by (simp add: HasChannel_def example_hub_channels)
  show ?thesis
    using w t q n Broadcast_routing [OF w, of "''news''" "[]" example_message]
      Broadcast_routing [OF w, of "''sports''" "[]" example_message]
    by simp
qed

text \<open>
  C2. \<open>Client.SendMessage\<close> on a subscriber with version \<open>v\<close>: a message of version at
  most \<open>v\<close> is appended to the subscriber's open queue and its id becomes the subscriber's
  \<open>lastEventID\<close>; a message of a greater version leaves the subscriber as it was and
  raises nothing.
\<close>

theorem Client_SendMessage_version_gate:
  "(m_version m \<le> cl_version c \<and> \<not> closed (cl_send c) \<longrightarrow>
      Client_SendMessage m c = Inr (deliver m c)
      \<and> sent (cl_send (deliver m c)) = sent (cl_send c) @ [m]
      \<and> cl_lastEventID (deliver m c) = m_id m)
   \<and> (cl_version c < m_version m \<longrightarrow> Client_SendMessage m c = Inr c)"
  by (simp add: Client_SendMessage_def chan_send_def deliver_def)

theorem Client_SendMessage_version_gate_witness:
  "Client_SendMessage (NewMessageVer ''1'' ''x'' [] 1) (newClient [] ''t'' ''a'' 1)
     = Inr (deliver (NewMessageVer ''1'' ''x'' [] 1) (newClient [] ''t'' ''a'' 1))
   \<and> Client_SendMessage (NewMessageVer ''1'' ''x'' [] 2) (newClient [] ''t'' ''a'' 1)
     = Inr (newClient [] ''t'' ''a'' 1)"
  using Client_SendMessage_version_gate
          [of "NewMessageVer ''1'' ''x'' [] 1" "newClient [] ''t'' ''a'' 1"]
        Client_SendMessage_version_gate
          [of "NewMessageVer ''1'' ''x'' [] 2" "newClient [] ''t'' ''a'' 1"]
  by (simp add: NewMessageVer_def newClient_def make_chan_def)

section \<open>The bytes written, and two requests the control loop does not survive\<close>




lemma doPrintf_no_percent: "CHR ''%'' \<notin> set f \<Longrightarrow> doPrintf f = f"
  by (induction f) auto

lemma nat_decimal_digits: "set (nat_decimal n) \<subseteq> set ''0123456789''"
proof (induction n rule: nat_decimal.induct)
  case (1 n)
  have digit: "''0123456789'' ! k \<in> set ''0123456789''" if "k < 10" for k
    using that by (intro nth_mem) simp
  show ?case
  proof (cases "n < 10")
    case True
    with digit [of n] show ?thesis by (subst nat_decimal.simps) simp
  next
    case False
    with "1.IH" digit [of "n mod 10"] show ?thesis by (subst nat_decimal.simps) simp
  qed
qed

lemma Sprintf_d_no_percent: "CHR ''%'' \<notin> set (Sprintf_d i)"
  using nat_decimal_digits [of "nat i"] nat_decimal_digits [of "nat (- i)"]
  by (auto simp: Sprintf_d_def)

lemma Replace_newline_no_percent: "CHR ''%'' \<notin> set d \<Longrightarrow> CHR ''%'' \<notin> set (Replace_newline d)"
  by (induction d) auto

lemma ServeHTTP_write_verbatim:
  assumes "CHR ''%'' \<notin> set (m_id msg)" and "CHR ''%'' \<notin> set (m_event msg)"
    and "CHR ''%'' \<notin> set (m_data msg)"
  shows "ServeHTTP_write opts msg = wire_format (msg\<lparr>m_retry := RetryInterval opts\<rparr>)"
proof -
  have "CHR ''%'' \<notin> set (Message_String (ServeHTTP_stamp opts msg))"
    using assms Sprintf_d_no_percent [of "RetryInterval opts"]
      Replace_newline_no_percent [of "m_data msg"]
    by (simp add: Message_String_def ServeHTTP_stamp_def)
  then show ?thesis
    by (simp add: ServeHTTP_write_def Fprintf_def doPrintf_no_percent Message_String_fields
        ServeHTTP_stamp_def)
qed



text \<open>
  C5. An unsubscribe for a subscriber that was removed before. The subscriber of
  connection 0 is removed when its topic is closed; a second subscriber then connects to
  the same topic name, which creates the topic anew; the unsubscribe of connection 0 now
  finds a topic, and \<open>removeClient\<close> closes the queue of connection 0 a second time: the
  control loop panics. With the topic gone the same unsubscribe changes nothing.
\<close>

theorem Unsubscribe_removed_panics:
  "run [Subscribe [] ''t'' [] 0, CloseTopic ''t''] (NewServer example_options)
     = Running (hub_after [Subscribe [] ''t'' [] 0, CloseTopic ''t''])
   \<and> closed_of 0 (hub_after [Subscribe [] ''t'' [] 0, CloseTopic ''t''])
   \<and> \<not> HasChannel ''t'' (hub_after [Subscribe [] ''t'' [] 0, CloseTopic ''t''])
   \<and> hub_step (Unsubscribe 0) (hub_after [Subscribe [] ''t'' [] 0, CloseTopic ''t''])
     = Running (hub_after [Subscribe [] ''t'' [] 0, CloseTopic ''t''])
   \<and> hub_step (Subscribe [] ''t'' [] 0) (hub_after [Subscribe [] ''t'' [] 0, CloseTopic ''t''])
     = Running (hub_after [Subscribe [] ''t'' [] 0, CloseTopic ''t'', Subscribe [] ''t'' [] 0])
   \<and> closed_of 0 (hub_after [Subscribe [] ''t'' [] 0, CloseTopic ''t'', Subscribe [] ''t'' [] 0])
   \<and> HasChannel ''t'' (hub_after [Subscribe [] ''t'' [] 0, CloseTopic ''t'', Subscribe [] ''t'' [] 0])
   \<and> hub_step (Unsubscribe 0)
        (hub_after [Subscribe [] ''t'' [] 0, CloseTopic ''t'', Subscribe [] ''t'' [] 0])
     = Panicked Close_of_closed_channel"
  by (simp add: eval_defs)

lemma Shutdown_blocks: "channels s \<noteq> [] \<Longrightarrow> hub_step ShutdownHub s = Blocked s"
  by (simp add: dispatch_shutdown_def close_returns_in_dispatch_def)

text \<open>
  C6. A shutdown of a hub with one topic and one subscriber: the iteration that handles the
  shutdown hangs in \<open>Server.close\<close>; the subscriber's queue stays open, no control channel
  is closed, and the loop does not return. A hub without topics stops.
\<close>

theorem Shutdown_with_topics_blocks:
  "run [Subscribe [] ''t'' [] 0] (NewServer example_options)
     = Running (hub_after [Subscribe [] ''t'' [] 0])
   \<and> hub_step ShutdownHub (hub_after [Subscribe [] ''t'' [] 0])
     = Blocked (hub_after [Subscribe [] ''t'' [] 0])
   \<and> \<not> closed_of 0 (hub_after [Subscribe [] ''t'' [] 0])
   \<and> \<not> shutdown_closed (hub_after [Subscribe [] ''t'' [] 0])
   \<and> HasChannel ''t'' (hub_after [Subscribe [] ''t'' [] 0])
   \<and> hub_step ShutdownHub (NewServer example_options)
     = Stopped ((NewServer example_options)
         \<lparr>addClient_closed := True, removeClient_closed := True, closeChannel_closed := True,
          shutdown_closed := True, logged := [''server started.'', ''server stopped.'']\<rparr>)"
  by (simp add: eval_defs)

section \<open>No topic without subscribers\<close>

lemma wf_no_empty_topic: "wf_hub s \<Longrightarrow> no_empty_topic s"
  by (auto simp: wf_hub_def no_empty_topic_def wf_channel_def list_all_iff ClientCount_def)

lemma wf_channel_lookup:
  assumes "wf_hub s" and "map_of (channels s) t = Some ch"
  shows "wf_channel (clients_store s) (t, ch)"
proof -
  from assms(2) have "(t, ch) \<in> set (channels s)" by (rule map_of_SomeD)
  with assms(1) show ?thesis by (simp add: wf_hub_def list_all_iff)
qed

lemma registered_lookup:
  assumes "wf_hub s" and "map_of (channels s) t = Some ch"
    and "map_of (ch_clients ch) n = Some p"
  shows "registered t (clients_store s) (n, p)"
proof -
  from assms(3) have "(n, p) \<in> set (ch_clients ch)" by (rule map_of_SomeD)
  with wf_channel_lookup [OF assms(1,2)] show ?thesis
    by (simp add: wf_channel_def list_all_iff)
qed

lemma Unsubscribe_only_subscriber:
  assumes "wf_hub s" and "map_of (channels s) t = Some ch" and "ch_clients ch = [(n, Some a)]"
  shows "hub_step (Unsubscribe a) s
     = Running (s\<lparr>channels := AList.delete t (channels s),
                  clients_store := (clients_store s)[a := disconnected (clients_store s ! a)],
                  logged := logged s
                    @ [''client disconnected from channel '' @ quoted t @ ''.'',
                       ''checking if channel '' @ quoted t @ '' has clients.'',
                       ''channel '' @ quoted t @ '' has no clients.'']\<rparr>)"
proof -
  have "registered t (clients_store s) (n, Some a)"
    using registered_lookup [OF assms(1,2), of n "Some a"] assms(3) by simp
  then have a: "a < length (clients_store s)" "cl_name (clients_store s ! a) = n"
      "cl_channel (clients_store s ! a) = t" "\<not> closed (cl_send (clients_store s ! a))"
    by (simp_all add: registered_def)
  from wf_channel_lookup [OF assms(1,2)] have nm: "ch_name ch = t"
    by (simp add: wf_channel_def)
  from assms(2) a(3) have look: "map_of (channels s) (cl_channel (clients_store s ! a)) = Some ch"
    by simp
  show ?thesis
    using dispatch_removeClient_open [OF a(1) look a(4)] a(2,3) nm assms(3)
    by (simp add: Let_def delete_update_same)
qed

text \<open>
  C4, as amended. In every hub reached from \<open>NewServer\<close> every topic of the table has a
  subscriber. When the only subscriber of a topic is unsubscribed, the step deletes the
  topic and closes the subscriber's queue, \<open>HasChannel\<close> is false afterwards, again no
  topic is empty, and a broadcast to that topic name, if the name is not the empty string,
  changes nothing and logs one line.
\<close>

theorem Unsubscribe_last_deletes_topic:
  assumes "reachable s"
  shows "no_empty_topic s
     \<and> (map_of (channels s) t = Some ch \<and> ch_clients ch = [(n, Some a)] \<longrightarrow>
          (\<exists>s'. hub_step (Unsubscribe a) s = Running s'
             \<and> \<not> HasChannel t s' \<and> closed_of a s' \<and> no_empty_topic s'
             \<and> (t \<noteq> [] \<longrightarrow>
                  SendMessageToClient t who m s'
                    = Inr (Print (''message not sent because channel '' @ quoted t
                                  @ '' has no clients.'') s'))))"
proof (intro conjI impI)
  from assms have w: "wf_hub s" by (rule reachable_wf)
  then show "no_empty_topic s" by (rule wf_no_empty_topic)
  assume topic: "map_of (channels s) t = Some ch \<and> ch_clients ch = [(n, Some a)]"
  define s' where "s' = s\<lparr>channels := AList.delete t (channels s),
                  clients_store := (clients_store s)[a := disconnected (clients_store s ! a)],
                  logged := logged s
                    @ [''client disconnected from channel '' @ quoted t @ ''.'',
                       ''checking if channel '' @ quoted t @ '' has clients.'',
                       ''channel '' @ quoted t @ '' has no clients.'']\<rparr>"
  from topic have t1: "map_of (channels s) t = Some ch" and t2: "ch_clients ch = [(n, Some a)]"
    by simp_all
  have st: "hub_step (Unsubscribe a) s = Running s'"
    unfolding s'_def by (rule Unsubscribe_only_subscriber [OF w t1 t2])
  with assms have "reachable s'" by (rule reachable.step)
  then have ne: "no_empty_topic s'" by (intro wf_no_empty_topic reachable_wf)
  have gone: "map_of (channels s') t = None" by (simp add: s'_def delete_conv')
  have "registered t (clients_store s) (n, Some a)"
    using registered_lookup [OF w, of t ch n "Some a"] topic by simp
  then have cl: "closed_of a s'"
    by (simp add: s'_def closed_of_def registered_def disconnected_def)
  have "SendMessageToClient t who m s'
          = Inr (Print (''message not sent because channel '' @ quoted t
                        @ '' has no clients.'') s')" if "t \<noteq> []"
    using that gone by (simp add: SendMessageToClient_def)
  with st ne gone cl
  show "\<exists>s'. hub_step (Unsubscribe a) s = Running s'
             \<and> \<not> HasChannel t s' \<and> closed_of a s' \<and> no_empty_topic s'
             \<and> (t \<noteq> [] \<longrightarrow>
                  SendMessageToClient t who m s'
                    = Inr (Print (''message not sent because channel '' @ quoted t
                                  @ '' has no clients.'') s'))"
    by (auto simp: HasChannel_def)
qed

theorem Unsubscribe_last_deletes_topic_witness:
  "reachable example_hub
   \<and> no_empty_topic example_hub
   \<and> map_of (channels example_hub) ''x''
       = Some \<lparr>ch_lastEventID = [], ch_name = ''x'', ch_clients = [([], Some 2)]\<rparr>
   \<and> (\<exists>s'. hub_step (Unsubscribe 2) example_hub = Running s'
         \<and> \<not> HasChannel ''x'' s' \<and> closed_of 2 s' \<and> no_empty_topic s'
         \<and> SendMessageToClient ''x'' [] example_message s'
             = Inr (Print (''message not sent because channel '' @ quoted ''x''
                           @ '' has no clients.'') s'))"
proof -
  have l: "map_of (channels example_hub) ''x''
       = Some \<lparr>ch_lastEventID = [], ch_name = ''x'', ch_clients = [([], Some 2)]\<rparr>"
    by (simp add: example_hub_channels)
  show ?thesis
    using example_hub_reachable l
      Unsubscribe_last_deletes_topic [OF example_hub_reachable, of "''x''"
        "\<lparr>ch_lastEventID = [], ch_name = ''x'', ch_clients = [([], Some 2)]\<rparr>" "[]" 2
        "[]" example_message]
    by simp
qed

text \<open>
  C4, as stated, fails for the topic whose name is the empty string. Connection 0 is the
  only subscriber of topic "" and connection 1 of topic "x". The unsubscribe of connection
  0 deletes topic "", and the broadcast to the topic name "" that follows is not a no-op:
  an empty name addresses every topic, and connection 1 receives the message.
\<close>

theorem Broadcast_to_deleted_empty_name_delivers:
  "run [Subscribe [] [] ''a'' 0, Subscribe [] ''x'' ''b'' 0] (NewServer example_options)
     = Running (hub_after [Subscribe [] [] ''a'' 0, Subscribe [] ''x'' ''b'' 0])
   \<and> map_option ch_clients
        (map_of (channels (hub_after [Subscribe [] [] ''a'' 0, Subscribe [] ''x'' ''b'' 0])) [])
     = Some [(''a'', Some 0)]
   \<and> hub_step (Unsubscribe 0) (hub_after [Subscribe [] [] ''a'' 0, Subscribe [] ''x'' ''b'' 0])
     = Running (hub_after [Subscribe [] [] ''a'' 0, Subscribe [] ''x'' ''b'' 0, Unsubscribe 0])
   \<and> \<not> HasChannel []
          (hub_after [Subscribe [] [] ''a'' 0, Subscribe [] ''x'' ''b'' 0, Unsubscribe 0])
   \<and> queue_of 1 (hub_after [Subscribe [] [] ''a'' 0, Subscribe [] ''x'' ''b'' 0, Unsubscribe 0])
     = []
   \<and> hub_step (Broadcast [] [] example_message)
        (hub_after [Subscribe [] [] ''a'' 0, Subscribe [] ''x'' ''b'' 0, Unsubscribe 0])
     = Running (hub_after [Subscribe [] [] ''a'' 0, Subscribe [] ''x'' ''b'' 0, Unsubscribe 0,
                           Broadcast [] [] example_message])
   \<and> queue_of 1 (hub_after [Subscribe [] [] ''a'' 0, Subscribe [] ''x'' ''b'' 0, Unsubscribe 0,
                             Broadcast [] [] example_message])
     = [example_message]"
  by (simp add: eval_defs)

section \<open>Two subscribers under one identity\<close>






lemma targets_broadcast_result [simp]:
  "targets t' who' (broadcast_result t who m s) = targets t' who' s"
proof -
  let ?f = "\<lambda>e. (fst e, if (t = [] \<or> fst e = t) \<and> who = []
                          then (snd e)\<lparr>ch_lastEventID := m_id m\<rparr> else snd e)"
  have ch: "channels (broadcast_result t who m s) = map ?f (channels s)"
    by (simp add: broadcast_result_def)
  have f: "filter (\<lambda>e. fst e = t') (map ?f xs) = map ?f (filter (\<lambda>e. fst e = t') xs)" for xs
    by (induction xs) auto
  have a: "addressed who' (snd (?f e)) = addressed who' (snd e)" for e
    by (simp add: addressed_def)
  have "concat (map (\<lambda>e. addressed who' (snd e)) (map ?f xs))
          = concat (map (\<lambda>e. addressed who' (snd e)) xs)" for xs
    by (induction xs) (simp_all add: a del: snd_conv)
  then show ?thesis
    by (simp add: targets_def resolved_def ch f del: map_map)
qed



lemma targets_Print [simp]: "targets t who (Print line s) = targets t who s"
  by (simp add: targets_def resolved_def)












end
